theory Spec2Isabelle
  imports Main "HOL-Library.Sublist" "HOL-Library.AList"
begin

section \<open>Threat-intelligence collectors: a model of the orchestration code\<close>

text \<open>
  The development follows the Python sources: \<open>collectors/abuseipdb_collector.py\<close>,
  \<open>collectors/virustotal_collector.py\<close>, \<open>collectors/abuseipdb_sitemap_collector.py\<close>
  and \<open>app.py\<close>. The MySQL tables become lists of rows, the Selenium and MySQL handles
  become values that are live or closed, every exception path of the source is a branch,
  and what the outside world answers (a page, a database fault, a random draw, the clock)
  is an argument of the function that asks for it.
\<close>

subsection \<open>The reserved-address pattern of the AbuseIPDB collector\<close>

text \<open>
  \<open>invalid_ip_pattern\<close> is compiled from
  \<^verbatim>\<open>^(0\.|10\.|127\.|169\.254\.|172\.(1[6-9]|2[0-9]|3[01])\.|192\.168\.|224\.|240\.)\<close>
  and used with \<open>match\<close>, which anchors at the start of the string. The pattern only uses
  literals, character ranges, character sets, sequence and alternation.
  \<open>re_match_prefix r s\<close> lists what is left of \<open>s\<close> after each way \<open>r\<close> can match a
  prefix of it; \<open>match\<close> finds something exactly when that list is not empty.
\<close>

datatype re = Lit string | Range char char | Cls "char list" | Seq re re | Alt re re

fun re_match_prefix :: "re \<Rightarrow> string \<Rightarrow> string list" where
  "re_match_prefix (Lit p) s = (if take (length p) s = p then [drop (length p) s] else [])"
| "re_match_prefix (Range lo hi) s =
     (case s of [] \<Rightarrow> []
      | x # t \<Rightarrow> if (of_char lo :: nat) \<le> of_char x \<and> (of_char x :: nat) \<le> of_char hi
                 then [t] else [])"
| "re_match_prefix (Cls cs) s =
     (case s of [] \<Rightarrow> [] | x # t \<Rightarrow> if x \<in> set cs then [t] else [])"
| "re_match_prefix (Seq r1 r2) s = concat (map (re_match_prefix r2) (re_match_prefix r1 s))"
| "re_match_prefix (Alt r1 r2) s = re_match_prefix r1 s @ re_match_prefix r2 s"

definition re_match :: "re \<Rightarrow> string \<Rightarrow> bool" where
  "re_match r s = (re_match_prefix r s \<noteq> [])"

fun alts :: "re list \<Rightarrow> re" where
  "alts [] = Cls []"
| "alts [r] = r"
| "alts (r # rs) = Alt r (alts rs)"

definition invalid_ip_pattern :: re where
  "invalid_ip_pattern = alts
     [Lit ''0.'', Lit ''10.'', Lit ''127.'', Lit ''169.254.'',
      Seq (Lit ''172.'')
        (Seq (alts [Seq (Lit ''1'') (Range CHR ''6'' CHR ''9''),
                    Seq (Lit ''2'') (Range CHR ''0'' CHR ''9''),
                    Seq (Lit ''3'') (Cls ''01'')])
             (Lit ''.'')),
      Lit ''192.168.'', Lit ''224.'', Lit ''240.'']"

definition is_valid_public_ip :: "string \<Rightarrow> bool" where
  "is_valid_public_ip ip = (\<not> re_match invalid_ip_pattern ip)"

text \<open>The prefixes that the pattern is meant to stand for, written out one by one.\<close>

definition reserved_prefixes :: "string list" where
  "reserved_prefixes =
     [''0.'', ''10.'', ''127.'', ''169.254.'',
      ''172.16.'', ''172.17.'', ''172.18.'', ''172.19.'',
      ''172.20.'', ''172.21.'', ''172.22.'', ''172.23.'', ''172.24.'',
      ''172.25.'', ''172.26.'', ''172.27.'', ''172.28.'', ''172.29.'',
      ''172.30.'', ''172.31.'',
      ''192.168.'', ''224.'', ''240.'']"

definition has_reserved_prefix :: "string \<Rightarrow> bool" where
  "has_reserved_prefix ip = list_ex (\<lambda>p. prefix p ip) reserved_prefixes"

text \<open>
  The pattern has no repetition, so the strings it matches exactly can be listed.
\<close>

fun re_words :: "re \<Rightarrow> string list" where
  "re_words (Lit p) = [p]"
| "re_words (Range lo hi) = map (\<lambda>n. [char_of n]) [of_char lo ..< Suc (of_char hi)]"
| "re_words (Cls cs) = map (\<lambda>c. [c]) cs"
| "re_words (Seq r1 r2) = concat (map (\<lambda>u. map (\<lambda>v. u @ v) (re_words r2)) (re_words r1))"
| "re_words (Alt r1 r2) = re_words r1 @ re_words r2"

subsection \<open>The shared MySQL database\<close>

type_synonym ip = string

text \<open>
  \<open>json.dumps\<close> is kept abstract up to serialisation: the stored \<open>label\<close> column is the
  JSON value that is dumped, not its text.
\<close>

datatype json = JString string | JObject "(string \<times> json) list"

text \<open>The \<open>label\<close> entry of a scraped record: a \<open>str\<close>, a \<open>dict\<close>, or \<open>None\<close>.\<close>

datatype py_label = LabelStr string | LabelDict "(string \<times> json) list" | LabelNone

text \<open>The dictionary returned by \<open>scrape_ip_data\<close>.\<close>

record scraped =
  d_ip :: ip
  d_isp :: string
  d_score :: int
  d_country :: string
  d_label :: py_label
  d_update_time :: string

text \<open>A row of \<open>AbuseIPDB_IP_Report\<close>, with the columns that \<open>insert_data\<close> writes.\<close>

record report_row =
  ip_address :: ip
  isp :: string
  country :: string
  score :: int
  label :: json
  update_time :: string

text \<open>The payload of a VirusTotal scrape, as \<open>update_db\<close> reads it.\<close>

record vt_data =
  positive :: "int option"
  total :: "int option"
  vt_country :: "string option"
  engines :: "(string \<times> string) list"
  total_files :: int
  jarm :: "string option"

text \<open>A row of \<open>VirusTotal_IP_Info\<close>; \<open>vt_update_time\<close> is in seconds.\<close>

record vt_row =
  vt_ip_address :: ip
  positive_detections :: "int option"
  total_detections :: "int option"
  country_col :: "string option"
  total_communicating_files :: int
  jarm_fingerprint :: "string option"
  engine_detections :: "(string \<times> string) list"
  vt_update_time :: int

text \<open>
  \<open>Invalid_IPs\<close> also has two timestamp columns that no query of the code reads; only
  its key column is kept.
\<close>

record database =
  Combined_IP_Score :: "(ip \<times> int) list"
  AbuseIPDB_IP_Report :: "report_row list"
  Invalid_IPs :: "ip list"
  VirusTotal_IP_Info :: "vt_row list"

subsection \<open>AbuseIPDB: discovery, marking and storing\<close>

text \<open>
  The query of \<open>get_ips_to_scrape\<close>: rows of \<open>Combined_IP_Score\<close> with no report and
  no entry in \<open>Invalid_IPs\<close>, by descending score, the first \<open>batch_size\<close> of them.
\<close>

definition ranked_ips :: "database \<Rightarrow> int \<Rightarrow> ip list" where
  "ranked_ips db batch_size =
     map fst (take (nat batch_size)
       (sort_key (\<lambda>r. - snd r)
         (filter (\<lambda>cis. fst cis \<notin> set (map ip_address (AbuseIPDB_IP_Report db))
                       \<and> fst cis \<notin> set (Invalid_IPs db))
            (Combined_IP_Score db))))"

text \<open>
  \<open>get_ips_to_scrape\<close>: \<open>db_fault\<close> says that a statement raised; the function then logs
  and returns the empty list, as it does for a negative \<open>LIMIT\<close>, which MySQL rejects.
  The private and reserved addresses are filtered out after the query.
\<close>

definition get_ips_to_scrape :: "database \<Rightarrow> int \<Rightarrow> bool \<Rightarrow> ip list" where
  "get_ips_to_scrape db batch_size db_fault =
     (if db_fault \<or> batch_size < 0 then []
      else filter is_valid_public_ip (ranked_ips db batch_size))"

text \<open>
  \<open>mark_ip_as_invalid\<close>: the insert with \<open>ON DUPLICATE KEY UPDATE\<close> leaves one row for the
  address; on a database error the transaction is rolled back.
\<close>

definition mark_ip_as_invalid :: "database \<Rightarrow> ip \<Rightarrow> bool \<Rightarrow> database" where
  "mark_ip_as_invalid db ip db_fault =
     (if db_fault then db
      else if ip \<in> set (Invalid_IPs db) then db
      else db\<lparr>Invalid_IPs := Invalid_IPs db @ [ip]\<rparr>)"

text \<open>The \<open>json_label\<close> computed by \<open>insert_data\<close>; \<open>str(None)\<close> is \<open>'None'\<close>.\<close>

definition json_label :: "py_label \<Rightarrow> json" where
  "json_label l =
     (case l of
        LabelStr s \<Rightarrow> JString s
      | LabelDict d \<Rightarrow> JObject d
      | LabelNone \<Rightarrow> JObject [(''value'', JString ''None'')])"

definition row_of :: "scraped \<Rightarrow> report_row" where
  "row_of data =
     \<lparr>ip_address = d_ip data, isp = d_isp data, country = d_country data,
      score = d_score data, label = json_label (d_label data),
      update_time = d_update_time data\<rparr>"

text \<open>
  \<open>INSERT ... ON DUPLICATE KEY UPDATE\<close> on a table keyed by \<open>ip_address\<close>: a row with the
  key has its other columns overwritten, otherwise the row is added.
\<close>

fun upsert_report :: "report_row \<Rightarrow> report_row list \<Rightarrow> report_row list" where
  "upsert_report new [] = [new]"
| "upsert_report new (r # rs) =
     (if ip_address r = ip_address new
      then r\<lparr>isp := isp new, country := country new, score := score new,
              label := label new, update_time := update_time new\<rparr> # rs
      else r # upsert_report new rs)"

definition insert_data :: "database \<Rightarrow> scraped \<Rightarrow> bool \<Rightarrow> database" where
  "insert_data db data db_fault =
     (if db_fault then db
      else db\<lparr>AbuseIPDB_IP_Report := upsert_report (row_of data) (AbuseIPDB_IP_Report db)\<rparr>)"

text \<open>
  One address in the loop of the sitemap collector's \<open>save_ips_to_db\<close>: an empty
  address is skipped, an insert that raises is logged and skipped, a candidate that is
  already there stays as it is, and a new one is added with score 0.
\<close>

definition save_ip :: "database \<Rightarrow> ip \<Rightarrow> bool \<Rightarrow> database" where
  "save_ip db ip db_fault =
     (if ip = [] \<or> db_fault then db
      else if ip \<in> fst ` set (Combined_IP_Score db) then db
      else db\<lparr>Combined_IP_Score := Combined_IP_Score db @ [(ip, 0)]\<rparr>)"

text \<open>The statements that write to the tables read by the discovery query.\<close>

datatype db_op = MarkInvalid ip bool | InsertData scraped bool | SaveIp ip bool

fun apply_op :: "database \<Rightarrow> db_op \<Rightarrow> database" where
  "apply_op db (MarkInvalid ip db_fault) = mark_ip_as_invalid db ip db_fault"
| "apply_op db (InsertData data db_fault) = insert_data db data db_fault"
| "apply_op db (SaveIp ip db_fault) = save_ip db ip db_fault"

definition apply_ops :: "database \<Rightarrow> db_op list \<Rightarrow> database" where
  "apply_ops db ops = foldl apply_op db ops"

subsection \<open>AbuseIPDB: scraping one address\<close>

text \<open>
  What the browser answers inside the \<open>try\<close> block of \<open>scrape_ip_data\<close>: the four
  texts read from the page (ISP, score already converted by \<open>int\<close>, country, label), a
  \<open>TimeoutException\<close> of the wait for \<open>report-wrapper\<close> (an expired cookie or a Cloudflare
  challenge page, as the log message of the source says), or any other exception, among
  them a score text that \<open>int\<close> rejects.
\<close>

datatype page_result = Loaded string int string string | TimeoutException | OtherException

text \<open>The screenshot step of the handler: the file is there, is written, or writing raises.\<close>

datatype screenshot = AlreadyExists | Saved | SaveRaises

record fetch_env =
  get_raises :: bool
  page :: page_result
  now_iso :: string
  screenshot_step :: screenshot
  mark_fault :: bool

datatype exn = Exception string

text \<open>
  \<open>str.strip()\<close> removes the characters for which \<open>isspace\<close> holds. A character here
  is a code point below 256; among those the white space is 0x09 to 0x0D, 0x1C to 0x1F,
  the space, 0x85 and 0xA0.
\<close>

definition is_space :: "char \<Rightarrow> bool" where
  "is_space c =
     (c \<in> set [CHR 0x09, CHR 0x0A, CHR 0x0B, CHR 0x0C, CHR 0x0D,
                 CHR 0x1C, CHR 0x1D, CHR 0x1E, CHR 0x1F, CHR 0x20, CHR 0x85, CHR 0xA0])"

definition py_strip :: "string \<Rightarrow> string" where
  "py_strip s = rev (dropWhile is_space (rev (dropWhile is_space s)))"

text \<open>
  \<open>scrape_ip_data\<close> returns the database and either an exception that leaves the
  function or the value returned (\<open>None\<close> or the dictionary). \<open>driver.get\<close> is outside the
  \<open>try\<close>; every exception inside it reaches the handler, which takes the screenshot,
  calls \<open>mark_ip_as_invalid\<close> and returns \<open>None\<close>.
\<close>

definition scrape_ip_data :: "database \<Rightarrow> ip \<Rightarrow> fetch_env \<Rightarrow> database \<times> (exn + scraped option)" where
  "scrape_ip_data db ip env =
     (if get_raises env then (db, Inl (Exception ''driver.get''))
      else case page env of
        Loaded isp_text score_val country_text label_text \<Rightarrow>
          (db, Inr (Some \<lparr>d_ip = ip, d_isp = py_strip isp_text, d_score = score_val,
                           d_country = py_strip country_text,
                           d_label = (if label_text = [] then LabelNone
                                      else LabelStr (py_strip label_text)),
                           d_update_time = now_iso env\<rparr>))
      | _ \<Rightarrow>
          (if screenshot_step env = SaveRaises then (db, Inl (Exception ''save_screenshot''))
           else (mark_ip_as_invalid db ip (mark_fault env), Inr None)))"

subsection \<open>AbuseIPDB: the continuous worker\<close>

text \<open>
  A Selenium driver, a MySQL connection or a cursor is live or has been closed. An
  attribute of the collector object is absent (\<open>None\<close>) or holds such a handle.
\<close>

datatype handle = Live | Quit

record collector =
  running :: bool
  driver :: "handle option"
  conn :: "handle option"
  cur :: "handle option"

text \<open>The object after a successful \<open>__init__\<close>: both setups have run.\<close>

definition init_collector :: collector where
  "init_collector = \<lparr>running = False, driver = Some Live, conn = Some Live, cur = Some Live\<rparr>"

definition setup_driver :: "collector \<Rightarrow> collector" where
  "setup_driver s = s\<lparr>driver := Some Live\<rparr>"

definition setup_database :: "collector \<Rightarrow> collector" where
  "setup_database s = s\<lparr>conn := Some Live, cur := Some Live\<rparr>"

text \<open>\<open>close\<close> closes what is there; it deletes no attribute.\<close>

definition close :: "collector \<Rightarrow> collector" where
  "close s = s\<lparr>driver := map_option (\<lambda>_. Quit) (driver s),
                cur := map_option (\<lambda>_. Quit) (cur s),
                conn := map_option (\<lambda>_. Quit) (conn s)\<rparr>"

definition stop_collection :: "collector \<Rightarrow> collector" where
  "stop_collection s = s\<lparr>running := False\<rparr>"

text \<open>
  One pass of the loop body of \<open>collect_continuous\<close>. The environment says how the
  setup of the guard ends if it runs, what \<open>scrape_ips\<close> does (returns that many results
  or raises), and whether another thread calls \<open>stop_collection\<close> during the pass.
  \<open>scrape_ips\<close> starts with \<open>add_cookies\<close>, that is with \<open>driver.get\<close>, which raises on a
  driver that has been quit: on such a driver the work raises whatever the environment.
\<close>

datatype setup_result = SetupOk | DriverFails | DatabaseFails | CookiesFail

datatype work = Results nat | Fails

record cycle_env =
  setup_outcome :: setup_result
  work :: work
  stop_requested :: bool

datatype event = Setup | Work "handle option" "handle option" | Close | Sleep nat

definition needs_setup :: "collector \<Rightarrow> bool" where
  "needs_setup s = (driver s = None \<or> conn s = None)"

definition scrape_ips_outcome :: "collector \<Rightarrow> work \<Rightarrow> work" where
  "scrape_ips_outcome s w = (if driver s = Some Live then w else Fails)"

definition run_work :: "collector \<Rightarrow> work \<Rightarrow> collector \<times> event list" where
  "run_work s w =
     (case scrape_ips_outcome s w of
        Results n \<Rightarrow> (s, [Work (driver s) (conn s), Sleep (if n = 0 then 300 else 30)])
      | Fails \<Rightarrow> (close s, [Work (driver s) (conn s), Close, Sleep 60]))"

definition cycle_body :: "collector \<Rightarrow> cycle_env \<Rightarrow> collector \<times> event list" where
  "cycle_body s e =
     (if needs_setup s then
        (case setup_outcome e of
           SetupOk \<Rightarrow>
             (let (s', t) = run_work (setup_database (setup_driver s)) (work e)
              in (s', Setup # t))
         | DriverFails \<Rightarrow> (close s, [Close, Sleep 60])
         | DatabaseFails \<Rightarrow> (close (setup_driver s), [Close, Sleep 60])
         | CookiesFail \<Rightarrow> (close (setup_database (setup_driver s)), [Setup, Close, Sleep 60]))
      else run_work s (work e))"

definition cycle :: "collector \<Rightarrow> cycle_env \<Rightarrow> collector \<times> event list" where
  "cycle s e =
     (let (s', t) = cycle_body s e
      in (if stop_requested e then stop_collection s' else s', t))"

text \<open>
  The \<open>while self.running\<close> loop, along the passes described by a list of environments:
  the list is the prefix of the run that is looked at.
\<close>

fun collect_loop :: "collector \<Rightarrow> cycle_env list \<Rightarrow> collector \<times> event list" where
  "collect_loop s [] = (s, [])"
| "collect_loop s (e # es) =
     (if running s
      then (let (s', t) = cycle s e; (s'', t') = collect_loop s' es in (s'', t @ t'))
      else (s, []))"

definition collect_continuous :: "collector \<Rightarrow> cycle_env list \<Rightarrow> collector \<times> event list" where
  "collect_continuous s es = collect_loop (s\<lparr>running := True\<rparr>) es"

fun sleeps :: "event list \<Rightarrow> nat list" where
  "sleeps [] = []"
| "sleeps (Sleep n # t) = n # sleeps t"
| "sleeps (_ # t) = sleeps t"

text \<open>The outcome of a pass: what its work did, or \<open>Fails\<close> when the setup raised.\<close>

definition cycle_outcome :: "collector \<Rightarrow> cycle_env \<Rightarrow> work" where
  "cycle_outcome s e =
     (if needs_setup s then
        (case setup_outcome e of
           SetupOk \<Rightarrow> scrape_ips_outcome (setup_database (setup_driver s)) (work e)
         | _ \<Rightarrow> Fails)
      else scrape_ips_outcome s (work e))"

text \<open>The delay that follows a pass, read off the three \<open>time.sleep\<close> calls.\<close>

definition abuse_delay :: "work \<Rightarrow> nat" where
  "abuse_delay w = (case w of Results n \<Rightarrow> (if n = 0 then 300 else 30) | Fails \<Rightarrow> 60)"

subsection \<open>VirusTotal: selection, storing and the continuous worker\<close>

text \<open>
  The query of \<open>get_ip_from_db\<close>. \<open>LEFT JOIN\<close> pairs a report row with each
  VirusTotal row of the same address, or with \<open>NULL\<close> when there is none; the \<open>WHERE\<close>
  clause keeps the pairs without a VirusTotal row and those whose \<open>update_time\<close> is
  before \<open>NOW()\<close> minus one day (86400 seconds); the first row by descending score is
  returned. A MySQL error gives \<open>None\<close>.
\<close>

definition left_join :: "report_row list \<Rightarrow> vt_row list \<Rightarrow> (report_row \<times> vt_row option) list" where
  "left_join rows vs =
     concat (map (\<lambda>a. case filter (\<lambda>v. vt_ip_address v = ip_address a) vs of
                         [] \<Rightarrow> [(a, None)]
                       | ms \<Rightarrow> map (\<lambda>v. (a, Some v)) ms) rows)"

definition needs_update :: "int \<Rightarrow> report_row \<times> vt_row option \<Rightarrow> bool" where
  "needs_update now j =
     (case snd j of None \<Rightarrow> True | Some v \<Rightarrow> vt_update_time v < now - 86400)"

definition vt_candidates :: "database \<Rightarrow> int \<Rightarrow> (report_row \<times> vt_row option) list" where
  "vt_candidates db now =
     filter (needs_update now) (left_join (AbuseIPDB_IP_Report db) (VirusTotal_IP_Info db))"

definition get_ip_from_db :: "database \<Rightarrow> int \<Rightarrow> bool \<Rightarrow> ip option" where
  "get_ip_from_db db now db_fault =
     (if db_fault then None
      else case take 1 (sort_key (\<lambda>j. - score (fst j)) (vt_candidates db now)) of
             [] \<Rightarrow> None
           | j # _ \<Rightarrow> Some (ip_address (fst j)))"

text \<open>
  The selection rule in words: a report row is eligible when no VirusTotal row has its
  address, or when one has and was updated more than one day before \<open>now\<close>.
\<close>

definition has_vt_record :: "database \<Rightarrow> report_row \<Rightarrow> bool" where
  "has_vt_record db a = list_ex (\<lambda>v. vt_ip_address v = ip_address a) (VirusTotal_IP_Info db)"

definition vt_stale :: "database \<Rightarrow> int \<Rightarrow> report_row \<Rightarrow> bool" where
  "vt_stale db now a =
     list_ex (\<lambda>v. vt_ip_address v = ip_address a \<and> vt_update_time v < now - 86400)
       (VirusTotal_IP_Info db)"

definition vt_eligible :: "database \<Rightarrow> int \<Rightarrow> report_row \<Rightarrow> bool" where
  "vt_eligible db now a = (\<not> has_vt_record db a \<or> vt_stale db now a)"

text \<open>The dictionary comprehension of \<open>update_db\<close>: a later entry for an engine wins.\<close>

definition engine_dict :: "(string \<times> string) list \<Rightarrow> (string \<times> string) list" where
  "engine_dict es = foldl (\<lambda>m kv. AList.update (fst kv) (snd kv) m) [] es"

definition vt_row_of :: "ip \<Rightarrow> vt_data \<Rightarrow> int \<Rightarrow> vt_row" where
  "vt_row_of ip data now =
     \<lparr>vt_ip_address = ip, positive_detections = positive data,
      total_detections = total data, country_col = vt_country data,
      total_communicating_files = total_files data, jarm_fingerprint = jarm data,
      engine_detections = engine_dict (engines data), vt_update_time = now\<rparr>"

text \<open>
  \<open>update_db\<close>: the upsert sets \<open>update_time = CURRENT_TIMESTAMP\<close> on a row that is
  there; a new row gets the column's default, taken to be the current time as well (the
  table definition is not part of the sources).
\<close>

fun upsert_vt :: "vt_row \<Rightarrow> vt_row list \<Rightarrow> vt_row list" where
  "upsert_vt new [] = [new]"
| "upsert_vt new (r # rs) =
     (if vt_ip_address r = vt_ip_address new
      then r\<lparr>positive_detections := positive_detections new,
              total_detections := total_detections new,
              country_col := country_col new,
              total_communicating_files := total_communicating_files new,
              jarm_fingerprint := jarm_fingerprint new,
              engine_detections := engine_detections new,
              vt_update_time := vt_update_time new\<rparr> # rs
      else r # upsert_vt new rs)"

definition update_db :: "database \<Rightarrow> ip \<Rightarrow> vt_data \<Rightarrow> int \<Rightarrow> bool \<Rightarrow> database" where
  "update_db db ip data now db_fault =
     (if db_fault then db
      else db\<lparr>VirusTotal_IP_Info := upsert_vt (vt_row_of ip data now) (VirusTotal_IP_Info db)\<rparr>)"

record vt_collector =
  vt_running :: bool
  vt_driver :: "handle option"

datatype scrape_result = ScrapeOk vt_data | ScrapeNone | ScrapeRaises

text \<open>
  \<open>setup_webdriver\<close> succeeds, or raises before \<open>self.driver\<close> is assigned (the browser
  does not start), or raises after it (loading the site or adding a cookie fails).
\<close>

datatype vt_setup_result = VtSetupOk | VtChromeFails | VtCookiesFail

text \<open>
  When another thread calls \<open>stop_collection\<close> during a pass: not at all, after the guard
  and before the work, while \<open>scrape\<close> runs, or after the work (during the wait).
\<close>

datatype stop_point = NoStop | StopBeforeWork | StopDuringScrape | StopAfterWork

text \<open>
  The environment of one pass of the VirusTotal loop: how \<open>setup_webdriver\<close> ends if it
  runs, the clock, whether the select fails, what \<open>scrape\<close> does, the random source
  behind \<open>random.randint(30, 40)\<close>, whether the upsert fails, and when \<open>stop_collection\<close>
  is called.
\<close>

record vt_env =
  vt_setup_outcome :: vt_setup_result
  vt_now :: int
  select_fault :: bool
  scrape_outcome :: scrape_result
  random_source :: nat
  update_fault :: bool
  vt_stop :: stop_point

definition randint :: "nat \<Rightarrow> nat \<Rightarrow> nat \<Rightarrow> nat" where
  "randint lo hi r = lo + r mod (hi - lo + 1)"

datatype vt_event = VSetup | VScrape ip | VUpdate ip | VQuit | VSleep nat

text \<open>The \<open>except\<close> branch of the loop: quit the driver if there is one, forget it, wait.\<close>

definition vt_on_exception :: "vt_collector \<Rightarrow> vt_collector \<times> vt_event list" where
  "vt_on_exception s =
     (s\<lparr>vt_driver := None\<rparr>, (if vt_driver s \<noteq> None then [VQuit] else []) @ [VSleep 60])"

definition vt_stop_collection :: "vt_collector \<Rightarrow> vt_collector" where
  "vt_stop_collection s = s\<lparr>vt_running := False, vt_driver := None\<rparr>"

definition stop_at :: "stop_point \<Rightarrow> vt_env \<Rightarrow> vt_collector \<Rightarrow> vt_collector" where
  "stop_at p e s = (if vt_stop e = p then vt_stop_collection s else s)"

text \<open>
  \<open>scrape\<close> starts with \<open>self.driver.get\<close>: without a live driver it raises whatever the
  environment offers.
\<close>

definition vt_scrape_outcome :: "vt_collector \<Rightarrow> scrape_result \<Rightarrow> scrape_result" where
  "vt_scrape_outcome s r = (if vt_driver s = Some Live then r else ScrapeRaises)"

definition vt_work :: "vt_collector \<Rightarrow> database \<Rightarrow> vt_env \<Rightarrow> vt_collector \<times> database \<times> vt_event list" where
  "vt_work s db e =
     (let s0 = stop_at StopBeforeWork e s in
      case get_ip_from_db db (vt_now e) (select_fault e) of
        None \<Rightarrow> (s0, db, [VSleep 300])
      | Some ip \<Rightarrow>
          if ip = [] then (s0, db, [VSleep 300])
          else (let s1 = stop_at StopDuringScrape e s0 in
                case vt_scrape_outcome s0 (scrape_outcome e) of
                  ScrapeRaises \<Rightarrow>
                    (let (s', t) = vt_on_exception s1 in (s', db, VScrape ip # t))
                | ScrapeNone \<Rightarrow> (s1, db, [VScrape ip, VSleep 60])
                | ScrapeOk data \<Rightarrow>
                    (s1, update_db db ip data (vt_now e) (update_fault e),
                     [VScrape ip, VUpdate ip, VSleep (randint 30 40 (random_source e))])))"

definition vt_cycle :: "vt_collector \<Rightarrow> database \<Rightarrow> vt_env \<Rightarrow> vt_collector \<times> database \<times> vt_event list" where
  "vt_cycle s db e =
     (let (s', db', t) =
            (if vt_driver s = None then
               (case vt_setup_outcome e of
                  VtSetupOk \<Rightarrow>
                    (let (s1, db1, t1) = vt_work (s\<lparr>vt_driver := Some Live\<rparr>) db e
                     in (s1, db1, VSetup # t1))
                | VtChromeFails \<Rightarrow> (let (s1, t1) = vt_on_exception s in (s1, db, t1))
                | VtCookiesFail \<Rightarrow>
                    (let (s1, t1) = vt_on_exception (s\<lparr>vt_driver := Some Live\<rparr>)
                     in (s1, db, t1)))
             else vt_work s db e)
      in (stop_at StopAfterWork e s', db', t))"

fun vt_loop :: "vt_collector \<Rightarrow> database \<Rightarrow> vt_env list \<Rightarrow> vt_collector \<times> database \<times> vt_event list" where
  "vt_loop s db [] = (s, db, [])"
| "vt_loop s db (e # es) =
     (if vt_running s
      then (let (s', db', t) = vt_cycle s db e; (s'', db'', t') = vt_loop s' db' es
            in (s'', db'', t @ t'))
      else (s, db, []))"

definition vt_collect_continuous :: "vt_collector \<Rightarrow> database \<Rightarrow> vt_env list \<Rightarrow> vt_collector \<times> database \<times> vt_event list" where
  "vt_collect_continuous s db es = vt_loop (s\<lparr>vt_running := True\<rparr>) db es"

fun vt_sleeps :: "vt_event list \<Rightarrow> nat list" where
  "vt_sleeps [] = []"
| "vt_sleeps (VSleep n # t) = n # vt_sleeps t"
| "vt_sleeps (_ # t) = vt_sleeps t"

text \<open>The outcome of a VirusTotal pass and the delay that follows it.\<close>

datatype vt_outcome = VtEmpty | VtSuccess | VtError

definition vt_delay :: "vt_outcome \<Rightarrow> nat \<Rightarrow> nat" where
  "vt_delay out r = (case out of VtEmpty \<Rightarrow> 300 | VtSuccess \<Rightarrow> randint 30 40 r | VtError \<Rightarrow> 60)"

definition vt_work_outcome :: "vt_collector \<Rightarrow> database \<Rightarrow> vt_env \<Rightarrow> vt_outcome" where
  "vt_work_outcome s db e =
     (case get_ip_from_db db (vt_now e) (select_fault e) of
        None \<Rightarrow> VtEmpty
      | Some ip \<Rightarrow>
          if ip = [] then VtEmpty
          else (case vt_scrape_outcome (stop_at StopBeforeWork e s) (scrape_outcome e) of
                  ScrapeOk _ \<Rightarrow> VtSuccess
                | _ \<Rightarrow> VtError))"

definition vt_cycle_outcome :: "vt_collector \<Rightarrow> database \<Rightarrow> vt_env \<Rightarrow> vt_outcome" where
  "vt_cycle_outcome s db e =
     (if vt_driver s = None then
        (case vt_setup_outcome e of
           VtSetupOk \<Rightarrow> vt_work_outcome (s\<lparr>vt_driver := Some Live\<rparr>) db e
         | _ \<Rightarrow> VtError)
      else vt_work_outcome s db e)"

subsection \<open>The scheduler and its job wrappers\<close>

text \<open>
  The job wrappers of \<open>app.py\<close> write to the application logger and call a collector
  method. What the wrapper sees of that method is whether it returns or raises; the
  exceptions are those that \<open>except Exception\<close> catches. A piece of wrapper code takes the
  log and gives the log and either the exception that leaves it or its result.
\<close>

datatype log_entry = Info string | Error string

datatype outcome = Returns | Raises exn

type_synonym prog = "log_entry list \<Rightarrow> log_entry list \<times> (exn + unit)"

definition logger_info :: "string \<Rightarrow> prog" where
  "logger_info msg l = (l @ [Info msg], Inr ())"

definition logger_error :: "string \<Rightarrow> prog" where
  "logger_error msg l = (l @ [Error msg], Inr ())"

definition call :: "outcome \<Rightarrow> prog" where
  "call h l = (case h of Returns \<Rightarrow> (l, Inr ()) | Raises e \<Rightarrow> (l, Inl e))"

definition seq :: "prog \<Rightarrow> prog \<Rightarrow> prog" where
  "seq p q l = (case p l of (l', Inl e) \<Rightarrow> (l', Inl e) | (l', Inr _) \<Rightarrow> q l')"

definition try_except :: "prog \<Rightarrow> (exn \<Rightarrow> prog) \<Rightarrow> prog" where
  "try_except p handler l = (case p l of (l', Inl e) \<Rightarrow> handler e l' | (l', Inr u) \<Rightarrow> (l', Inr u))"

text \<open>\<open>str(e)\<close> in the messages.\<close>

definition str_of :: "exn \<Rightarrow> string" where
  "str_of e = (case e of Exception m \<Rightarrow> m)"

definition run_opencti_collector :: "outcome \<Rightarrow> prog" where
  "run_opencti_collector save_indicators =
     try_except
       (seq (logger_info ''Starting OpenCTI data collection...'')
         (seq (call save_indicators)
              (logger_info ''OpenCTI data collection completed successfully'')))
       (\<lambda>e. logger_error (''Error in OpenCTI collector: '' @ str_of e))"

definition run_et_collector :: "outcome \<Rightarrow> prog" where
  "run_et_collector collect =
     try_except
       (seq (logger_info ''Starting Emerging Threats rules collection...'')
         (seq (call collect)
              (logger_info ''Emerging Threats rules collection completed successfully'')))
       (\<lambda>e. logger_error (''Error in Emerging Threats collector: '' @ str_of e))"

definition run_phishing_collector :: "outcome \<Rightarrow> prog" where
  "run_phishing_collector collect =
     try_except
       (seq (logger_info ''Starting Phishing data collection...'')
         (seq (call collect)
              (logger_info ''Phishing data collection completed successfully'')))
       (\<lambda>e. logger_error (''Error in Phishing collector: '' @ str_of e))"

definition run_phishing_data_collector :: "outcome \<Rightarrow> prog" where
  "run_phishing_data_collector collect =
     try_except
       (seq (logger_info ''Starting Phishing data collection...'')
         (seq (call collect)
              (logger_info ''Phishing data collection completed successfully'')))
       (\<lambda>e. logger_error (''Error in Phishing data collector: '' @ str_of e))"

definition run_abuseipdb_sitemap_collector :: "outcome \<Rightarrow> prog" where
  "run_abuseipdb_sitemap_collector collect =
     try_except
       (seq (logger_info ''Starting AbuseIPDB sitemap collection...'')
         (seq (call collect)
              (logger_info ''AbuseIPDB sitemap collection completed'')))
       (\<lambda>e. logger_error (''Error in AbuseIPDB sitemap collector: '' @ str_of e))"

text \<open>The five functions that \<open>start_scheduler\<close> registers.\<close>

datatype job = PhishingJob | OpenCTIJob | ETJob | PhishingDataJob | SitemapJob

definition job_func :: "job \<Rightarrow> outcome \<Rightarrow> prog" where
  "job_func j =
     (case j of
        PhishingJob \<Rightarrow> run_phishing_collector
      | OpenCTIJob \<Rightarrow> run_opencti_collector
      | ETJob \<Rightarrow> run_et_collector
      | PhishingDataJob \<Rightarrow> run_phishing_data_collector
      | SitemapJob \<Rightarrow> run_abuseipdb_sitemap_collector)"

text \<open>
  Modelled from the spec: the \<open>schedule\<close> library, whose \<open>every(...).do(...)\<close> and
  \<open>run_pending\<close> the scheduler of \<open>app.py\<close> calls, is not among the sources. After
  section 4.1: a cadence is a fixed interval or a daily time of day; a tick invokes, one
  after the other, the handler of every job whose next-due time has passed and recomputes
  its next-due time from the time of the run. An exception of a job function is not
  caught there: it leaves \<open>run_pending\<close> before the jobs still to run, and it is
  \<open>run_schedule\<close> that provides for it. Times are in seconds.
\<close>

datatype cadence = Every nat | DailyAt nat

definition next_due :: "cadence \<Rightarrow> nat \<Rightarrow> nat" where
  "next_due c now =
     (case c of
        Every i \<Rightarrow> now + i
      | DailyAt t \<Rightarrow> (if now mod 86400 < t then now - now mod 86400 + t
                     else now - now mod 86400 + 86400 + t))"

record sjob =
  job_name :: job
  job_cadence :: cadence
  next_run :: nat

record sched =
  jobs :: "sjob list"
  log :: "log_entry list"
  runs :: "(nat \<times> job) list"
  ticks :: nat

text \<open>
  The registrations of \<open>start_scheduler\<close> at time \<open>t0\<close>: every 30 seconds, every hour,
  every day, every day at 23:59, every day at 02:00.
\<close>

definition registered :: "nat \<Rightarrow> sjob list" where
  "registered t0 =
     [\<lparr>job_name = PhishingJob, job_cadence = Every 30, next_run = next_due (Every 30) t0\<rparr>,
      \<lparr>job_name = OpenCTIJob, job_cadence = Every 3600, next_run = next_due (Every 3600) t0\<rparr>,
      \<lparr>job_name = ETJob, job_cadence = Every 86400, next_run = next_due (Every 86400) t0\<rparr>,
      \<lparr>job_name = PhishingDataJob, job_cadence = DailyAt 86340,
        next_run = next_due (DailyAt 86340) t0\<rparr>,
      \<lparr>job_name = SitemapJob, job_cadence = DailyAt 7200,
        next_run = next_due (DailyAt 7200) t0\<rparr>]"

definition start_scheduler :: "nat \<Rightarrow> sched" where
  "start_scheduler t0 = \<lparr>jobs = registered t0, log = [], runs = [], ticks = 0\<rparr>"

definition reschedule :: "job \<Rightarrow> nat \<Rightarrow> sjob list \<Rightarrow> sjob list" where
  "reschedule n now js =
     map (\<lambda>j. if job_name j = n then j\<lparr>next_run := next_due (job_cadence j) now\<rparr> else j) js"

type_synonym handlers = "job \<Rightarrow> nat \<Rightarrow> outcome"

fun run_due :: "handlers \<Rightarrow> nat \<Rightarrow> sjob list \<Rightarrow> sched \<Rightarrow> sched \<times> (exn + unit)" where
  "run_due h now [] s = (s, Inr ())"
| "run_due h now (j # js) s =
     (case job_func (job_name j) (h (job_name j) now) (log s) of
        (l, Inl e) \<Rightarrow> (s\<lparr>log := l, runs := runs s @ [(now, job_name j)]\<rparr>, Inl e)
      | (l, Inr _) \<Rightarrow>
          run_due h now js
            (s\<lparr>log := l, runs := runs s @ [(now, job_name j)],
               jobs := reschedule (job_name j) now (jobs s)\<rparr>))"

definition due_list :: "nat \<Rightarrow> sjob list \<Rightarrow> sjob list" where
  "due_list now js = sort_key next_run (filter (\<lambda>j. next_run j \<le> now) js)"

definition due_jobs :: "nat \<Rightarrow> sched \<Rightarrow> sjob list" where
  "due_jobs now s = due_list now (jobs s)"

text \<open>
  The runs that the registered cadences alone call for, whatever the handlers do.
\<close>

fun expected_runs :: "sjob list \<Rightarrow> nat list \<Rightarrow> (nat \<times> job) list" where
  "expected_runs js [] = []"
| "expected_runs js (now # clock) =
     map (\<lambda>j. (now, job_name j)) (due_list now js)
       @ expected_runs (foldl (\<lambda>q j. reschedule (job_name j) now q) js (due_list now js)) clock"

definition run_pending :: "handlers \<Rightarrow> nat \<Rightarrow> sched \<Rightarrow> sched \<times> (exn + unit)" where
  "run_pending h now s = run_due h now (due_jobs now s) s"

text \<open>
  The loop of \<open>run_schedule\<close>, one pass for each clock reading of a list: an exception
  out of \<open>run_pending\<close> is logged and the loop goes on.
\<close>

fun run_schedule :: "handlers \<Rightarrow> sched \<Rightarrow> nat list \<Rightarrow> sched" where
  "run_schedule h s [] = s"
| "run_schedule h s (now # clock) =
     (case run_pending h now s of
        (s', Inr _) \<Rightarrow> run_schedule h (s'\<lparr>ticks := ticks s' + 1\<rparr>) clock
      | (s', Inl e) \<Rightarrow>
          run_schedule h
            (s'\<lparr>log := log s' @ [Error (''Scheduler error: '' @ str_of e)],
                ticks := ticks s' + 1\<rparr>) clock)"

definition is_error :: "log_entry \<Rightarrow> bool" where
  "is_error x = (case x of Error _ \<Rightarrow> True | Info _ \<Rightarrow> False)"

definition errors :: "log_entry list \<Rightarrow> nat" where
  "errors l = length (filter is_error l)"

subsection \<open>Phishing data: writing the artifact and serving the latest file\<close>

text \<open>
  The files that matter are text files; a file has its path, the time of its last change
  of status (what \<open>os.path.getctime\<close> reads; creating, truncating and writing all set it)
  and its content. A path is the string the program uses for it.
\<close>

record file_entry =
  f_path :: string
  f_ctime :: nat
  f_content :: string

type_synonym file_system = "file_entry list"

text \<open>\<open>open(filename, 'w')\<close>: the file is created empty, or emptied if it is there.\<close>

definition open_w :: "file_system \<Rightarrow> string \<Rightarrow> nat \<Rightarrow> file_system" where
  "open_w fs p t =
     (if p \<in> set (map f_path fs)
      then map (\<lambda>f. if f_path f = p then f\<lparr>f_ctime := t, f_content := []\<rparr> else f) fs
      else fs @ [\<lparr>f_path = p, f_ctime = t, f_content = []\<rparr>])"

definition write_text :: "file_system \<Rightarrow> string \<Rightarrow> string \<Rightarrow> nat \<Rightarrow> file_system" where
  "write_text fs p text t =
     map (\<lambda>f. if f_path f = p then f\<lparr>f_ctime := t, f_content := f_content f @ text\<rparr> else f) fs"

text \<open>
  A column of a record is \<open>None\<close> or a string; it counts as true when it is a string
  that is not empty. The line written for a record is the f-string of the source.
\<close>

definition truthy :: "string option \<Rightarrow> bool" where
  "truthy x = (case x of None \<Rightarrow> False | Some s \<Rightarrow> s \<noteq> [])"

definition str_opt :: "string option \<Rightarrow> string" where
  "str_opt x = (case x of None \<Rightarrow> ''None'' | Some s \<Rightarrow> s)"

definition line_of :: "string option \<times> string option \<Rightarrow> string" where
  "line_of r = ''URL: '' @ str_opt (fst r) @ '', IP: '' @ str_opt (snd r) @ [CHR 0x0A]"

text \<open>
  The environment of \<open>save_to_txt\<close>: whether \<open>open\<close> raises, the number of the step at
  which a write raises if one does, and the clock reading at each step (step 0 is the
  open, step k the k-th record).
\<close>

record write_env =
  open_raises :: bool
  write_raises_at :: "nat option"
  clock_at :: "nat \<Rightarrow> nat"

text \<open>
  \<open>save_to_txt\<close> gives the list of the states the file system goes through, from the
  state after \<open>open\<close> to the last write, and whether the function returns or the
  exception is raised again. The file object may hold written text back in its buffer
  until it is closed; the states listed are those in which every write has reached the
  file. The first one, where the file is there and empty, does not depend on that.
\<close>

fun write_records ::
  "file_system \<Rightarrow> string \<Rightarrow> write_env \<Rightarrow> nat \<Rightarrow> (string option \<times> string option) list
     \<Rightarrow> file_system list \<times> (exn + unit)" where
  "write_records fs p env k [] = ([], Inr ())"
| "write_records fs p env k (r # rs) =
     (if truthy (fst r) \<and> truthy (snd r) then
        (if write_raises_at env = Some k then ([], Inl (Exception ''write''))
         else (let fs' = write_text fs p (line_of r) (clock_at env k);
                   (sts, res) = write_records fs' p env (Suc k) rs
               in (fs' # sts, res)))
      else write_records fs p env (Suc k) rs)"

definition save_to_txt ::
  "file_system \<Rightarrow> (string option \<times> string option) list \<Rightarrow> string \<Rightarrow> write_env
     \<Rightarrow> file_system list \<times> (exn + unit)" where
  "save_to_txt fs records filename env =
     (if open_raises env then ([], Inl (Exception ''open''))
      else (let fs0 = open_w fs filename (clock_at env 0);
                (sts, res) = write_records fs0 filename env 1 records
            in (fs0 # sts, res)))"



text \<open>\<open>os.path.join\<close> of two components.\<close>

definition py_join :: "string \<Rightarrow> string \<Rightarrow> string" where
  "py_join a b =
     (if b \<noteq> [] \<and> hd b = CHR ''/'' then b
      else if a = [] \<or> last a = CHR ''/'' then a @ b
      else a @ ''/'' @ b)"

text \<open>
  \<open>glob.glob(os.path.join(directory, '*.txt'))\<close>: the paths directly in the directory
  whose name ends in \<open>.txt\<close> and does not start with a dot.
\<close>

definition glob_txt_match :: "string \<Rightarrow> string \<Rightarrow> bool" where
  "glob_txt_match directory p =
     (let d = py_join directory []; base = drop (length d) p
      in take (length d) p = d \<and> base \<noteq> [] \<and> hd base \<noteq> CHR ''.''
         \<and> CHR ''/'' \<notin> set base \<and> suffix ''.txt'' base)"

definition glob_txt :: "string \<Rightarrow> file_system \<Rightarrow> file_entry list" where
  "glob_txt directory fs = filter (\<lambda>f. glob_txt_match directory (f_path f)) fs"

text \<open>\<open>max(list_of_files, key=os.path.getctime)\<close>: the first of the newest files.\<close>

fun max_ctime :: "file_entry \<Rightarrow> file_entry list \<Rightarrow> file_entry" where
  "max_ctime best [] = best"
| "max_ctime best (f # fs) = max_ctime (if f_ctime best < f_ctime f then f else best) fs"

text \<open>
  \<open>find_latest_phishing_file\<close> on a snapshot of the file system: a 404 answer or the file
  sent, with its content at that moment. \<open>directory\<close> is the attribute of the service,
  which its constructor sets to \<open>./phishing_domain\<close>.
\<close>

datatype response = NotFound | Served string string

definition find_latest_phishing_file :: "string \<Rightarrow> file_system \<Rightarrow> response" where
  "find_latest_phishing_file directory fs =
     (case glob_txt directory fs of
        [] \<Rightarrow> NotFound
      | f # rest \<Rightarrow> (let latest = max_ctime f rest in Served (f_path latest) (f_content latest)))"

definition phishing_directory :: string where
  "phishing_directory = ''./phishing_domain''"

text \<open>
  \<open>collect\<close> of the phishing data collector: nothing is written for an empty query
  result; otherwise the file goes to the path made of \<open>phishing_data_dir\<close>, the day and
  the time stamp followed by \<open>_phishing_cti.txt\<close>, where the day and the time stamp are
  \<open>strftime\<close> texts made of digits, dashes and underscores.
\<close>

definition collect_filename :: "string \<Rightarrow> string \<Rightarrow> string \<Rightarrow> string" where
  "collect_filename phishing_data_dir today timestamp =
     py_join (py_join phishing_data_dir today) (timestamp @ ''_phishing_cti.txt'')"

definition is_strftime_text :: "string \<Rightarrow> bool" where
  "is_strftime_text s = (s \<noteq> [] \<and> list_all (\<lambda>c. c \<in> set ''0123456789-_'') s)"

definition collect ::
  "file_system \<Rightarrow> (string option \<times> string option) list \<Rightarrow> string \<Rightarrow> string \<Rightarrow> string
     \<Rightarrow> bool \<Rightarrow> write_env \<Rightarrow> file_system list \<times> (exn + unit)" where
  "collect fs records phishing_data_dir today timestamp makedirs_raises env =
     (if records = [] then ([], Inr ())
      else if makedirs_raises then ([], Inl (Exception ''makedirs''))
      else save_to_txt fs records (collect_filename phishing_data_dir today timestamp) env)"

text \<open>A small database for concrete runs.\<close>

definition db0 :: database where
  "db0 = \<lparr>Combined_IP_Score =
            [(''10.0.0.1'', 100), (''8.8.8.8'', 50), (''172.16.0.9'', 70), (''1.2.3.4'', 90)],
          AbuseIPDB_IP_Report = [], Invalid_IPs = [], VirusTotal_IP_Info = []\<rparr>"

definition db1 :: database where
  "db1 = db0\<lparr>AbuseIPDB_IP_Report :=
     [\<lparr>ip_address = ''8.8.8.8'', isp = ''Google LLC'', country = ''United States'',
       score = 0, label = JString ''dns'', update_time = ''2024-01-01T00:00:00''\<rparr>,
      \<lparr>ip_address = ''1.2.3.4'', isp = ''Old ISP'', country = ''Nowhere'',
       score = 3, label = JString ''old'', update_time = ''2023-12-31T00:00:00''\<rparr>]\<rparr>"

definition sample_a1 :: scraped where
  "sample_a1 = \<lparr>d_ip = ''1.2.3.4'', d_isp = ''ISP One'', d_score = 10, d_country = ''AU'',
                d_label = LabelStr ''Port Scan'', d_update_time = ''2024-01-02T10:00:00''\<rparr>"

definition sample_a2 :: scraped where
  "sample_a2 = \<lparr>d_ip = ''1.2.3.4'', d_isp = ''ISP Two'', d_score = 90, d_country = ''NZ'',
                d_label = LabelNone, d_update_time = ''2024-01-03T11:00:00''\<rparr>"

definition sample_vt :: vt_data where
  "sample_vt = \<lparr>positive = Some 3, total = Some 90, vt_country = Some ''US'',
                engines = [(''EngineA'', ''clean''), (''EngineB'', ''malicious'')],
                total_files = 12, jarm = None\<rparr>"

definition db2 :: database where
  "db2 = \<lparr>Combined_IP_Score = [],
          AbuseIPDB_IP_Report =
            [\<lparr>ip_address = ''1.1.1.1'', isp = ''A'', country = ''AU'', score = 80,
              label = JString ''x'', update_time = ''t1''\<rparr>,
             \<lparr>ip_address = ''2.2.2.2'', isp = ''B'', country = ''BE'', score = 60,
              label = JString ''y'', update_time = ''t2''\<rparr>,
             \<lparr>ip_address = ''3.3.3.3'', isp = ''C'', country = ''CA'', score = 90,
              label = JString ''z'', update_time = ''t3''\<rparr>],
          Invalid_IPs = [],
          VirusTotal_IP_Info =
            [vt_row_of ''1.1.1.1'' sample_vt 1000, vt_row_of ''3.3.3.3'' sample_vt 100000]\<rparr>"

definition timeout_env :: fetch_env where
  "timeout_env = \<lparr>get_raises = False, page = TimeoutException, now_iso = ''2024-01-02T10:00:00'',
                   screenshot_step = Saved, mark_fault = False\<rparr>"

definition fail_env :: cycle_env where
  "fail_env = \<lparr>setup_outcome = SetupOk, work = Fails, stop_requested = False\<rparr>"

definition ok_env :: "nat \<Rightarrow> cycle_env" where
  "ok_env n = \<lparr>setup_outcome = SetupOk, work = Results n, stop_requested = False\<rparr>"

definition stop_env :: cycle_env where
  "stop_env = \<lparr>setup_outcome = SetupOk, work = Results 2, stop_requested = True\<rparr>"

definition init_vt :: vt_collector where
  "init_vt = \<lparr>vt_running = False, vt_driver = Some Live\<rparr>"

definition vt_fail_env :: "nat \<Rightarrow> vt_env" where
  "vt_fail_env r = \<lparr>vt_setup_outcome = VtSetupOk, vt_now = 100000, select_fault = False,
      scrape_outcome = ScrapeRaises, random_source = r, update_fault = False,
      vt_stop = NoStop\<rparr>"

definition vt_ok_env :: "nat \<Rightarrow> vt_env" where
  "vt_ok_env r = \<lparr>vt_setup_outcome = VtSetupOk, vt_now = 100000, select_fault = False,
      scrape_outcome = ScrapeOk sample_vt, random_source = r, update_fault = False,
      vt_stop = NoStop\<rparr>"

definition faulty :: handlers where
  "faulty j t = (if j = PhishingJob then Raises (Exception ''boom'') else Returns)"






section \<open>Properties\<close>

subsection \<open>The pattern and the prefixes\<close>

lemma take_eq_iff: "(take (length p) s = p) = (\<exists>t. s = p @ t)"
  by (metis append_eq_conv_conj append_take_drop_id)

lemma range_char:
  "((of_char lo :: nat) \<le> of_char x \<and> (of_char x :: nat) \<le> of_char hi)
    = (\<exists>n \<in> {of_char lo ..< Suc (of_char hi)}. x = char_of (n::nat))"
proof -
  have hi: "(of_char hi :: nat) < 256"
    by (metis of_char_mod_256 mod_less_divisor zero_less_numeral)
  show ?thesis
  proof
    assume "(of_char lo :: nat) \<le> of_char x \<and> (of_char x :: nat) \<le> of_char hi"
    then show "\<exists>n \<in> {of_char lo ..< Suc (of_char hi)}. x = char_of (n::nat)"
      by (intro bexI[where x="of_char x"]) auto
  next
    assume "\<exists>n \<in> {of_char lo ..< Suc (of_char hi)}. x = char_of (n::nat)"
    then obtain n :: nat where n: "of_char lo \<le> n" "n \<le> of_char hi" "x = char_of n"
      by auto
    from n(2) hi have "n < 256" by linarith
    then have "n mod 256 = n" by (rule mod_less)
    with n show "(of_char lo :: nat) \<le> of_char x \<and> (of_char x :: nat) \<le> of_char hi"
      by simp
  qed
qed

text \<open>What is left after a match is the input without one of the pattern's words.\<close>

lemma re_match_prefix_words:
  "set (re_match_prefix r s) = {t. \<exists>w \<in> set (re_words r). s = w @ t}"
proof (induction r arbitrary: s)
  case (Lit p)
  show ?case using take_eq_iff[of p s] by auto
next
  case (Range lo hi)
  show ?case using range_char[of lo _ hi] by (cases s) auto
next
  case (Cls cs)
  show ?case by (cases s) auto
next
  case (Seq r1 r2)
  show ?case by (auto simp: Seq)
next
  case (Alt r1 r2)
  show ?case by (auto simp: Alt)
qed

lemma re_match_words: "re_match r s = (\<exists>w \<in> set (re_words r). prefix w s)"
  unfolding re_match_def prefix_def
  using re_match_prefix_words[of r s] by (auto simp flip: set_empty)

lemma words_pattern: "re_words invalid_ip_pattern = reserved_prefixes"
  unfolding invalid_ip_pattern_def reserved_prefixes_def
  by code_simp

lemma pattern_is_prefixes: "re_match invalid_ip_pattern ip = has_reserved_prefix ip"
  by (simp add: re_match_words has_reserved_prefix_def words_pattern list_ex_iff)

lemma is_valid_public_ip_iff: "is_valid_public_ip ip = (\<not> has_reserved_prefix ip)"
  by (simp add: is_valid_public_ip_def pattern_is_prefixes)

subsection \<open>Discovery returns no reserved address\<close>

text \<open>
  Claim C9. Whatever the tables hold, whatever the batch size and whether or not the
  database answers, no address of the list returned by \<open>get_ips_to_scrape\<close> starts with
  one of the prefixes 0., 10., 127., 169.254., 172.16. to 172.31., 192.168., 224. or 240.:
  such an address is dropped from the batch whatever its score, and \<open>scrape_ips\<close> only
  scrapes addresses of that list.
\<close>

theorem get_ips_to_scrape_public:
  "ip \<in> set (get_ips_to_scrape db batch_size db_fault) \<Longrightarrow> \<not> has_reserved_prefix ip"
  by (auto simp: get_ips_to_scrape_def is_valid_public_ip_iff split: if_splits)

theorem get_ips_to_scrape_public_witness:
  "''1.2.3.4'' \<in> set (get_ips_to_scrape db0 10 False) \<and> \<not> has_reserved_prefix ''1.2.3.4''
   \<and> ''10.0.0.1'' \<notin> set (get_ips_to_scrape db0 10 False)"
proof -
  have l: "get_ips_to_scrape db0 10 False = [''1.2.3.4'', ''8.8.8.8'']"
    by code_simp
  have m: "''1.2.3.4'' \<in> set (get_ips_to_scrape db0 10 False)"
    by (simp add: l)
  from get_ips_to_scrape_public [OF m] m l show ?thesis by simp
qed

subsection \<open>A marked address is never discovered again\<close>

lemma marked_apply_op:
  "c \<in> set (Invalid_IPs db) \<Longrightarrow> c \<in> set (Invalid_IPs (apply_op db op))"
  by (cases op) (auto simp: mark_ip_as_invalid_def insert_data_def save_ip_def)

lemma marked_apply_ops:
  "c \<in> set (Invalid_IPs db) \<Longrightarrow> c \<in> set (Invalid_IPs (apply_ops db ops))"
  unfolding apply_ops_def
  by (induction ops arbitrary: db) (auto simp: marked_apply_op)

lemma marked_after_mark: "c \<in> set (Invalid_IPs (mark_ip_as_invalid db c False))"
  by (simp add: mark_ip_as_invalid_def)

lemma ranked_ips_unmarked: "c \<in> set (ranked_ips db n) \<Longrightarrow> c \<notin> set (Invalid_IPs db)"
  unfolding ranked_ips_def by (auto dest!: in_set_takeD)

text \<open>
  Claim C3. Once \<open>mark_ip_as_invalid\<close> has inserted an address \<open>c\<close> (its statement ran
  without a database error), no later call of \<open>get_ips_to_scrape\<close> returns \<open>c\<close>: this
  holds for every starting database, after any further sequence of the statements that
  write to the tables (marking, storing reports, the sitemap collector adding \<open>c\<close> as a
  candidate again, each failing or not), for every batch size, and whether or not the
  discovery query itself fails. No statement of the code removes a row of
  \<open>Invalid_IPs\<close>.
\<close>

theorem marked_never_returned:
  "c \<notin> set (get_ips_to_scrape (apply_ops (mark_ip_as_invalid db c False) ops)
              batch_size db_fault)"
proof -
  have "c \<in> set (Invalid_IPs (apply_ops (mark_ip_as_invalid db c False) ops))"
    by (rule marked_apply_ops) (rule marked_after_mark)
  then show ?thesis
    by (auto simp: get_ips_to_scrape_def dest: ranked_ips_unmarked)
qed

theorem marked_never_returned_witness:
  "''1.2.3.4'' \<in> set (get_ips_to_scrape db0 10 False)
   \<and> ''1.2.3.4'' \<notin> set (get_ips_to_scrape
         (apply_ops (mark_ip_as_invalid db0 ''1.2.3.4'' False)
            [SaveIp ''1.2.3.4'' False, MarkInvalid ''8.8.8.8'' True]) 10 False)"
proof -
  have "get_ips_to_scrape db0 10 False = [''1.2.3.4'', ''8.8.8.8'']"
    by code_simp
  with marked_never_returned
    [of "''1.2.3.4''" db0 "[SaveIp ''1.2.3.4'' False, MarkInvalid ''8.8.8.8'' True]" 10 False]
  show ?thesis by simp
qed

subsection \<open>Storing a report twice\<close>

lemma upsert_keys:
  "set (map ip_address (upsert_report new rs)) = insert (ip_address new) (set (map ip_address rs))"
  by (induction rs) auto

text \<open>The key stays a key: the table never gets two rows for one address.\<close>

lemma upsert_distinct:
  "distinct (map ip_address rs) \<Longrightarrow> distinct (map ip_address (upsert_report new rs))"
proof (induction rs)
  case Nil
  then show ?case by simp
next
  case (Cons r rs)
  then show ?case using upsert_keys[of new rs] by auto
qed

lemma upsert_row:
  "distinct (map ip_address rs) \<Longrightarrow>
   filter (\<lambda>r. ip_address r = ip_address new) (upsert_report new rs) = [new]"
proof (induction rs)
  case Nil
  then show ?case by simp
next
  case (Cons r rs)
  show ?case
  proof (cases "ip_address r = ip_address new")
    case True
    with Cons.prems have "ip_address new \<notin> ip_address ` set rs"
      by auto
    then have "\<forall>x \<in> set rs. ip_address x \<noteq> ip_address new"
      by (metis imageI)
    then have "filter (\<lambda>r. ip_address r = ip_address new) rs = []"
      by (simp add: filter_empty_conv)
    with True show ?thesis by simp
  next
    case False
    with Cons show ?thesis by simp
  qed
qed

lemma upsert_idem: "upsert_report new (upsert_report new rs) = upsert_report new rs"
  by (induction rs) auto

text \<open>
  Claim C4. On a report table keyed by \<open>ip_address\<close>, \<open>insert_data\<close> of \<open>a1\<close> and then
  of \<open>a2\<close> for the same address \<open>c\<close> (both statements running without a database
  error) leaves exactly one row for \<open>c\<close>. Its ISP, country, score and update time are
  those of \<open>a2\<close>, and its label column is the JSON dump of the label of \<open>a2\<close>: the JSON
  string of a text label, the JSON object of a dictionary label, and the object
  \<open>{"value": "None"}\<close> for the label \<open>None\<close>. Nothing of \<open>a1\<close> is left. Storing \<open>a2\<close> once
  more changes nothing.
\<close>

theorem upsert_last_write_wins:
  assumes "distinct (map ip_address (AbuseIPDB_IP_Report db))"
    and "d_ip a1 = c" and "d_ip a2 = c"
  shows "filter (\<lambda>r. ip_address r = c)
           (AbuseIPDB_IP_Report (insert_data (insert_data db a1 False) a2 False))
         = [\<lparr>ip_address = c, isp = d_isp a2, country = d_country a2, score = d_score a2,
             label = (case d_label a2 of
                        LabelStr s \<Rightarrow> JString s
                      | LabelDict d \<Rightarrow> JObject d
                      | LabelNone \<Rightarrow> JObject [(''value'', JString ''None'')]),
             update_time = d_update_time a2\<rparr>]
       \<and> insert_data (insert_data (insert_data db a1 False) a2 False) a2 False
           = insert_data (insert_data db a1 False) a2 False"
proof -
  have "distinct (map ip_address (upsert_report (row_of a1) (AbuseIPDB_IP_Report db)))"
    using assms(1) by (rule upsert_distinct)
  from upsert_row [OF this, of "row_of a2"] assms(3)
  show ?thesis by (simp add: insert_data_def row_of_def json_label_def upsert_idem)
qed

theorem upsert_last_write_wins_witness:
  "distinct (map ip_address (AbuseIPDB_IP_Report db1))
   \<and> d_ip sample_a1 = ''1.2.3.4'' \<and> d_ip sample_a2 = ''1.2.3.4''
   \<and> filter (\<lambda>r. ip_address r = ''1.2.3.4'')
         (AbuseIPDB_IP_Report (insert_data (insert_data db1 sample_a1 False) sample_a2 False))
       = [\<lparr>ip_address = ''1.2.3.4'', isp = ''ISP Two'', country = ''NZ'', score = 90,
           label = JObject [(''value'', JString ''None'')],
           update_time = ''2024-01-03T11:00:00''\<rparr>]
   \<and> filter (\<lambda>r. ip_address r = ''1.2.3.4'')
         (AbuseIPDB_IP_Report (insert_data (insert_data db1 sample_a2 False) sample_a1 False))
       = [\<lparr>ip_address = ''1.2.3.4'', isp = ''ISP One'', country = ''AU'', score = 10,
           label = JString ''Port Scan'',
           update_time = ''2024-01-02T10:00:00''\<rparr>]"
proof -
  have d: "distinct (map ip_address (AbuseIPDB_IP_Report db1))"
    by (simp add: db1_def db0_def)
  have i1: "d_ip sample_a1 = ''1.2.3.4''" and i2: "d_ip sample_a2 = ''1.2.3.4''"
    by (simp_all add: sample_a1_def sample_a2_def)
  have f1: "d_isp sample_a1 = ''ISP One''" "d_country sample_a1 = ''AU''"
    "d_score sample_a1 = 10" "d_label sample_a1 = LabelStr ''Port Scan''"
    "d_update_time sample_a1 = ''2024-01-02T10:00:00''"
    by (simp_all add: sample_a1_def)
  have f2: "d_isp sample_a2 = ''ISP Two''" "d_country sample_a2 = ''NZ''"
    "d_score sample_a2 = 90" "d_label sample_a2 = LabelNone"
    "d_update_time sample_a2 = ''2024-01-03T11:00:00''"
    by (simp_all add: sample_a2_def)
  from upsert_last_write_wins [OF d i1 i2] upsert_last_write_wins [OF d i2 i1]
  have "filter (\<lambda>r. ip_address r = ''1.2.3.4'')
         (AbuseIPDB_IP_Report (insert_data (insert_data db1 sample_a1 False) sample_a2 False))
       = [\<lparr>ip_address = ''1.2.3.4'', isp = ''ISP Two'', country = ''NZ'', score = 90,
           label = JObject [(''value'', JString ''None'')],
           update_time = ''2024-01-03T11:00:00''\<rparr>]"
    and "filter (\<lambda>r. ip_address r = ''1.2.3.4'')
         (AbuseIPDB_IP_Report (insert_data (insert_data db1 sample_a2 False) sample_a1 False))
       = [\<lparr>ip_address = ''1.2.3.4'', isp = ''ISP One'', country = ''AU'', score = 10,
           label = JString ''Port Scan'',
           update_time = ''2024-01-02T10:00:00''\<rparr>]"
    by (simp_all only: f1 f2 py_label.case)
  with d i1 i2 show ?thesis by simp
qed

subsection \<open>VirusTotal selection is bounded by freshness\<close>

lemma left_join_row:
  "set (case filter P vs of [] \<Rightarrow> [(a, None)] | ms \<Rightarrow> map (\<lambda>v. (a, Some v)) ms)
     = (if filter P vs = [] then {(a, None)} else (\<lambda>v. (a, Some v)) ` {v \<in> set vs. P v})"
  by (cases "filter P vs") (auto simp flip: set_filter)

lemma candidates_rows:
  "fst ` set (vt_candidates db now) = {a \<in> set (AbuseIPDB_IP_Report db). vt_eligible db now a}"
proof -
  let ?vs = "VirusTotal_IP_Info db"
  have m: "(a, v) \<in> set (vt_candidates db now) \<longleftrightarrow>
        a \<in> set (AbuseIPDB_IP_Report db) \<and>
        (case v of None \<Rightarrow> \<not> has_vt_record db a
         | Some r \<Rightarrow> r \<in> set ?vs \<and> vt_ip_address r = ip_address a
                      \<and> vt_update_time r < now - 86400)" for a v
    unfolding vt_candidates_def left_join_def needs_update_def has_vt_record_def
    by (cases v) (auto simp: left_join_row list_ex_iff filter_empty_conv split: if_splits)
  show ?thesis
  proof (intro set_eqI iffI)
    fix a assume "a \<in> fst ` set (vt_candidates db now)"
    then obtain v where "(a, v) \<in> set (vt_candidates db now)" by auto
    then show "a \<in> {a \<in> set (AbuseIPDB_IP_Report db). vt_eligible db now a}"
      unfolding m by (cases v) (auto simp: vt_eligible_def vt_stale_def list_ex_iff)
  next
    fix a assume a: "a \<in> {a \<in> set (AbuseIPDB_IP_Report db). vt_eligible db now a}"
    show "a \<in> fst ` set (vt_candidates db now)"
    proof (cases "has_vt_record db a")
      case False
      with a have "(a, None) \<in> set (vt_candidates db now)" unfolding m by simp
      then show ?thesis by force
    next
      case True
      with a have "vt_stale db now a" by (simp add: vt_eligible_def)
      then obtain r where "r \<in> set ?vs" "vt_ip_address r = ip_address a"
        "vt_update_time r < now - 86400"
        by (auto simp: vt_stale_def list_ex_iff)
      with a have "(a, Some r) \<in> set (vt_candidates db now)" unfolding m by simp
      then show ?thesis by force
    qed
  qed
qed

lemma sort_key_head:
  assumes "sort_key f xs = y # ys"
  shows "y \<in> set xs \<and> (\<forall>x \<in> set xs. f y \<le> f x)"
proof -
  have "sorted (map f (y # ys))" using assms sorted_sort_key[of f xs] by simp
  moreover have "set (y # ys) = set xs" using assms set_sort[of f xs] by simp
  ultimately show ?thesis by (auto simp: )
qed

lemma get_ip_Some:
  assumes "get_ip_from_db db now False = Some ip"
  shows "\<exists>a \<in> set (AbuseIPDB_IP_Report db). ip_address a = ip \<and> vt_eligible db now a
           \<and> (\<forall>a' \<in> set (AbuseIPDB_IP_Report db). vt_eligible db now a' \<longrightarrow> score a' \<le> score a)"
proof -
  let ?c = "vt_candidates db now"
  from assms obtain j js where s: "sort_key (\<lambda>j. - score (fst j)) ?c = j # js"
    and ip: "ip = ip_address (fst j)"
    by (cases "sort_key (\<lambda>j. - score (fst j)) ?c") (auto simp: get_ip_from_db_def)
  from sort_key_head[OF s] have j: "j \<in> set ?c"
    and m: "\<forall>x \<in> set ?c. score (fst x) \<le> score (fst j)" by auto
  from j have "fst j \<in> fst ` set ?c" by (rule imageI)
  then have a: "fst j \<in> set (AbuseIPDB_IP_Report db)" "vt_eligible db now (fst j)"
    by (simp_all add: candidates_rows)
  have "\<forall>a' \<in> set (AbuseIPDB_IP_Report db). vt_eligible db now a' \<longrightarrow> score a' \<le> score (fst j)"
  proof (intro ballI impI)
    fix a' assume "a' \<in> set (AbuseIPDB_IP_Report db)" "vt_eligible db now a'"
    then have "a' \<in> fst ` set ?c" by (simp add: candidates_rows)
    with m show "score a' \<le> score (fst j)" by auto
  qed
  with a ip show ?thesis by blast
qed

lemma get_ip_None:
  assumes "get_ip_from_db db now False = None"
  shows "\<forall>a \<in> set (AbuseIPDB_IP_Report db). \<not> vt_eligible db now a"
proof -
  have "sort_key (\<lambda>j. - score (fst j)) (vt_candidates db now) = []"
    using assms by (cases "sort_key (\<lambda>j. - score (fst j)) (vt_candidates db now)")
      (auto simp: get_ip_from_db_def)
  then have "set (vt_candidates db now) = {}" 
    by (metis set_sort set_empty)
  then have "fst ` set (vt_candidates db now) = {}" by simp
  then show ?thesis unfolding candidates_rows by blast
qed

lemma vt_overwrite:
  "vt_ip_address r = vt_ip_address new \<Longrightarrow>
   r\<lparr>positive_detections := positive_detections new,
     total_detections := total_detections new,
     country_col := country_col new,
     total_communicating_files := total_communicating_files new,
     jarm_fingerprint := jarm_fingerprint new,
     engine_detections := engine_detections new,
     vt_update_time := vt_update_time new\<rparr> = (new :: vt_row)"
  by (cases r, cases new) simp

lemma upsert_vt_Cons:
  "upsert_vt new (r # rs) =
     (if vt_ip_address r = vt_ip_address new then new # rs else r # upsert_vt new rs)"
  by (simp add: vt_overwrite)

lemma upsert_vt_set:
  "distinct (map vt_ip_address rs) \<Longrightarrow>
   set (upsert_vt new rs) = insert new {r \<in> set rs. vt_ip_address r \<noteq> vt_ip_address new}"
proof (induction rs)
  case Nil
  then show ?case by simp
next
  case (Cons r rs)
  show ?case
  proof (cases "vt_ip_address r = vt_ip_address new")
    case True
    with Cons.prems have "vt_ip_address new \<notin> vt_ip_address ` set rs" by auto
    then have "{x \<in> set rs. vt_ip_address x \<noteq> vt_ip_address new} = set rs"
      by (auto simp: image_iff)
    with True show ?thesis by (simp only: upsert_vt_Cons) auto
  next
    case False
    with Cons have "set (upsert_vt new rs)
        = insert new {r \<in> set rs. vt_ip_address r \<noteq> vt_ip_address new}"
      by simp
    with False show ?thesis by (simp only: upsert_vt_Cons) auto
  qed
qed

lemma eligible_after_update:
  assumes "distinct (map vt_ip_address (VirusTotal_IP_Info db))"
  shows "vt_eligible (update_db db ip data t False) now a
       = (if ip_address a = ip then t < now - 86400 else vt_eligible db now a)"
proof -
  have s: "set (VirusTotal_IP_Info (update_db db ip data t False))
      = insert (vt_row_of ip data t) {r \<in> set (VirusTotal_IP_Info db). vt_ip_address r \<noteq> ip}"
    using upsert_vt_set[OF assms, of "vt_row_of ip data t"]
    by (simp add: update_db_def vt_row_of_def)
  show ?thesis
    unfolding vt_eligible_def has_vt_record_def vt_stale_def list_ex_iff s
    by (auto simp: vt_row_of_def)
qed

text \<open>
  Claim C10. \<open>get_ip_from_db\<close> returns at most one address. When the select succeeds it
  returns the address of a report row that is eligible (no VirusTotal row, or one updated
  more than a day before) and whose score no other eligible report row exceeds, and it
  returns \<open>None\<close> exactly when no report row is eligible; a failing select gives \<open>None\<close>.
  After \<open>update_db\<close> has stored a result for an address at time \<open>t\<close>, the rows of that
  address are eligible again exactly from the moment \<open>now - 86400 > t\<close>, that is once
  more than one day has passed; the other rows are unaffected. \<open>VirusTotal_IP_Info\<close> is
  keyed by \<open>ip_address\<close>.
\<close>

theorem get_ip_from_db_freshness:
  assumes "distinct (map vt_ip_address (VirusTotal_IP_Info db))"
  shows "(case get_ip_from_db db now False of
            None \<Rightarrow> \<not> list_ex (vt_eligible db now) (AbuseIPDB_IP_Report db)
          | Some ip \<Rightarrow>
              list_ex (\<lambda>a. ip_address a = ip \<and> vt_eligible db now a
                          \<and> list_all (\<lambda>a'. vt_eligible db now a' \<longrightarrow> score a' \<le> score a)
                                (AbuseIPDB_IP_Report db))
                (AbuseIPDB_IP_Report db))
       \<and> get_ip_from_db db now True = None
       \<and> vt_eligible (update_db db c data t False) later a
           = (if ip_address a = c then t < later - 86400 else vt_eligible db later a)"
proof -
  have 1: "case get_ip_from_db db now False of
            None \<Rightarrow> \<not> list_ex (vt_eligible db now) (AbuseIPDB_IP_Report db)
          | Some ip \<Rightarrow>
              list_ex (\<lambda>a. ip_address a = ip \<and> vt_eligible db now a
                          \<and> list_all (\<lambda>a'. vt_eligible db now a' \<longrightarrow> score a' \<le> score a)
                                (AbuseIPDB_IP_Report db))
                (AbuseIPDB_IP_Report db)"
  proof (cases "get_ip_from_db db now False")
    case None
    from get_ip_None[OF None] None show ?thesis by (simp add: list_ex_iff)
  next
    case (Some ip)
    from get_ip_Some[OF Some] Some show ?thesis
      by (simp add: list_ex_iff list_all_iff)
  qed
  have 2: "get_ip_from_db db now True = None"
    by (simp add: get_ip_from_db_def)
  from 1 2 eligible_after_update[OF assms] show ?thesis by simp
qed

theorem get_ip_from_db_freshness_witness:
  "distinct (map vt_ip_address (VirusTotal_IP_Info db2))
   \<and> get_ip_from_db db2 100000 False = Some ''1.1.1.1''
   \<and> get_ip_from_db (update_db db2 ''1.1.1.1'' sample_vt 100000 False) 186400 False
       = Some ''2.2.2.2''
   \<and> \<not> vt_eligible (update_db db2 ''1.1.1.1'' sample_vt 100000 False) 186400
         (hd (AbuseIPDB_IP_Report db2))
   \<and> vt_eligible (update_db db2 ''1.1.1.1'' sample_vt 100000 False) 186401
         (hd (AbuseIPDB_IP_Report db2))"
proof -
  have d: "distinct (map vt_ip_address (VirusTotal_IP_Info db2))"
    by (simp add: db2_def vt_row_of_def)
  have a: "ip_address (hd (AbuseIPDB_IP_Report db2)) = ''1.1.1.1''"
    by (simp add: db2_def)
  have g1: "get_ip_from_db db2 100000 False = Some ''1.1.1.1''"
    by code_simp
  have g2: "get_ip_from_db (update_db db2 ''1.1.1.1'' sample_vt 100000 False) 186400 False
       = Some ''2.2.2.2''"
    by code_simp
  from get_ip_from_db_freshness
         [OF d, of 100000 "''1.1.1.1''" sample_vt 100000 186400 "hd (AbuseIPDB_IP_Report db2)"]
       get_ip_from_db_freshness
         [OF d, of 100000 "''1.1.1.1''" sample_vt 100000 186401 "hd (AbuseIPDB_IP_Report db2)"]
       d a g1 g2
  show ?thesis by simp
qed

subsection \<open>A timeout marks the address for good\<close>

lemma scrape_timeout:
  assumes "\<not> get_raises env" "page env = TimeoutException" "screenshot_step env \<noteq> SaveRaises"
  shows "scrape_ip_data db c env = (mark_ip_as_invalid db c (mark_fault env), Inr None)"
  using assms by (simp add: scrape_ip_data_def)

text \<open>
  Claim C1 asks that an address whose fetch fails with a timeout or a challenge page stays
  eligible for a later discovery. The code does the opposite: when the wait of
  \<open>scrape_ip_data\<close> times out (and the screenshot and the insert go through), the
  function returns \<open>None\<close>, the address is in \<open>Invalid_IPs\<close>, and no later call of
  \<open>get_ips_to_scrape\<close> returns it, whatever is written to the tables afterwards.
\<close>

theorem timeout_marks_invalid:
  assumes "\<not> get_raises env" "page env = TimeoutException"
    "screenshot_step env \<noteq> SaveRaises" "\<not> mark_fault env"
  shows "snd (scrape_ip_data db c env) = Inr None
       \<and> c \<in> set (Invalid_IPs (fst (scrape_ip_data db c env)))
       \<and> c \<notin> set (get_ips_to_scrape (apply_ops (fst (scrape_ip_data db c env)) ops)
                    batch_size db_fault)"
proof -
  from assms have s: "scrape_ip_data db c env = (mark_ip_as_invalid db c False, Inr None)"
    by (simp add: scrape_timeout)
  have "c \<in> set (Invalid_IPs (apply_ops (mark_ip_as_invalid db c False) ops))"
    by (rule marked_apply_ops) (rule marked_after_mark)
  then have "c \<notin> set (get_ips_to_scrape (apply_ops (mark_ip_as_invalid db c False) ops)
                    batch_size db_fault)"
    by (auto simp: get_ips_to_scrape_def dest: ranked_ips_unmarked)
  with s show ?thesis by (simp add: marked_after_mark)
qed

theorem timeout_marks_invalid_witness:
  "\<not> get_raises timeout_env \<and> page timeout_env = TimeoutException
   \<and> screenshot_step timeout_env \<noteq> SaveRaises \<and> \<not> mark_fault timeout_env
   \<and> ''1.2.3.4'' \<in> set (get_ips_to_scrape db0 10 False)
   \<and> ''1.2.3.4'' \<notin> set (get_ips_to_scrape
         (apply_ops (fst (scrape_ip_data db0 ''1.2.3.4'' timeout_env)) []) 10 False)"
proof -
  have e: "\<not> get_raises timeout_env" "page timeout_env = TimeoutException"
    "screenshot_step timeout_env \<noteq> SaveRaises" "\<not> mark_fault timeout_env"
    by (simp_all add: timeout_env_def)
  have "get_ips_to_scrape db0 10 False = [''1.2.3.4'', ''8.8.8.8'']"
    by code_simp
  with timeout_marks_invalid [OF e, of db0 "''1.2.3.4''" "[]" 10 False] e
  show ?thesis by simp
qed

subsection \<open>The delays of the continuous workers\<close>

lemma sleeps_run_work: "sleeps (snd (run_work s w)) = [abuse_delay (scrape_ips_outcome s w)]"
  by (simp add: run_work_def abuse_delay_def split: work.splits)

lemma sleeps_cycle_body: "sleeps (snd (cycle_body s e)) = [abuse_delay (cycle_outcome s e)]"
proof (cases "needs_setup s")
  case False
  then show ?thesis by (simp add: cycle_body_def cycle_outcome_def sleeps_run_work)
next
  case True
  then show ?thesis
    by (cases "setup_outcome e")
       (simp_all add: cycle_body_def cycle_outcome_def sleeps_run_work case_prod_beta
          abuse_delay_def)
qed

lemma sleeps_cycle: "sleeps (snd (cycle s e)) = [abuse_delay (cycle_outcome s e)]"
  by (simp add: cycle_def case_prod_beta sleeps_cycle_body)

lemma sleeps_append: "sleeps (t @ u) = sleeps t @ sleeps u"
  by (induction t rule: sleeps.induct) auto

lemma vt_sleeps_on_exception: "vt_sleeps (snd (vt_on_exception s)) = [60]"
  by (simp add: vt_on_exception_def)

lemma vt_sleeps_work:
  "vt_sleeps (snd (snd (vt_work s db e)))
     = [vt_delay (vt_work_outcome s db e) (random_source e)]"
  by (simp add: vt_work_def vt_work_outcome_def vt_delay_def vt_on_exception_def
      case_prod_beta Let_def split: option.splits scrape_result.splits)

lemma vt_sleeps_cycle:
  "vt_sleeps (snd (snd (vt_cycle s db e)))
     = [vt_delay (vt_cycle_outcome s db e) (random_source e)]"
proof (cases "vt_driver s")
  case (Some h)
  then show ?thesis
    by (simp add: vt_cycle_def vt_cycle_outcome_def case_prod_beta vt_sleeps_work)
next
  case None
  then show ?thesis
    by (cases "vt_setup_outcome e")
       (simp_all add: vt_cycle_def vt_cycle_outcome_def case_prod_beta vt_sleeps_work
          vt_sleeps_on_exception vt_delay_def)
qed

lemma randint_bounds: "30 \<le> randint 30 40 r \<and> randint 30 40 r \<le> 40"
proof -
  have "r mod 11 < 11" by simp
  then show ?thesis unfolding randint_def by simp
qed

lemma cycle_outcome_fails: "work e = Fails \<Longrightarrow> cycle_outcome s e = Fails"
  by (simp add: cycle_outcome_def scrape_ips_outcome_def split: setup_result.splits)

lemma cycle_running: "running s \<Longrightarrow> \<not> stop_requested e \<Longrightarrow> running (fst (cycle s e))"
  by (simp add: cycle_def cycle_body_def run_work_def close_def case_prod_beta
      setup_driver_def setup_database_def
      split: setup_result.splits work.splits)

lemma failing_run:
  "running s \<Longrightarrow> list_all (\<lambda>e. work e = Fails \<and> \<not> stop_requested e) es \<Longrightarrow>
   sleeps (snd (collect_loop s es)) = replicate (length es) 60"
proof (induction es arbitrary: s)
  case Nil
  then show ?case by simp
next
  case (Cons e es)
  then have e: "work e = Fails" "\<not> stop_requested e"
    and r: "list_all (\<lambda>e. work e = Fails \<and> \<not> stop_requested e) es" by simp_all
  from cycle_running[OF Cons.prems(1) e(2)] have "running (fst (cycle s e))" .
  from Cons.IH[OF this r] Cons.prems(1) show ?case
    by (simp add: case_prod_beta sleeps_append sleeps_cycle cycle_outcome_fails[OF e(1)]
        abuse_delay_def)
qed

lemma first_vt_candidate: "get_ip_from_db db2 100000 False = Some ''1.1.1.1''"
  by code_simp

text \<open>
  Claim C2 as stated fails on the code: three errors in a row of the AbuseIPDB worker are
  followed by 60, 60 and 60 seconds, and two errors of the VirusTotal worker under two
  different random draws by 60 and 60 seconds, while the success that follows waits
  37 seconds. Nothing escalates and the error delay carries no jitter.
\<close>

theorem error_delay_counterexample:
  "sleeps (snd (collect_continuous init_collector [fail_env, fail_env, fail_env]))
     = [60, 60, 60]
   \<and> vt_sleeps (snd (snd (vt_collect_continuous init_vt db2
         [vt_fail_env 0, vt_fail_env 7, vt_ok_env 7])))
     = [60, 60, 37]"
proof -
  have a: "sleeps (snd (collect_continuous init_collector [fail_env, fail_env, fail_env]))
     = [60, 60, 60]"
    by (simp add: collect_continuous_def init_collector_def fail_env_def cycle_def
      cycle_body_def needs_setup_def run_work_def scrape_ips_outcome_def close_def)
  have v: "vt_sleeps (snd (snd (vt_collect_continuous init_vt db2
         [vt_fail_env 0, vt_fail_env 7, vt_ok_env 7])))
     = [60, 60, 37]"
    by (simp add: vt_collect_continuous_def init_vt_def vt_fail_env_def vt_ok_env_def
      vt_cycle_def vt_work_def vt_on_exception_def first_vt_candidate randint_def
      case_prod_beta stop_at_def vt_scrape_outcome_def)
  from a v show ?thesis by simp
qed

text \<open>
  Claim C2 as amended. In both workers every pass is followed by exactly one delay, and
  the delay depends on the outcome of that pass alone: 60 seconds after an error, however
  many errors came before and whatever the random source, 300 seconds after a pass that
  found nothing, and after a pass with results 30 seconds (AbuseIPDB) or a random whole
  number of seconds from 30 to 40 (VirusTotal). A run of the AbuseIPDB worker in which
  every pass fails waits 60 seconds each time.
\<close>

theorem delay_from_outcome_only:
  "sleeps (snd (cycle s e)) = [abuse_delay (cycle_outcome s e)]
   \<and> vt_sleeps (snd (snd (vt_cycle v db ve)))
       = [vt_delay (vt_cycle_outcome v db ve) (random_source ve)]
   \<and> abuse_delay Fails = 60 \<and> abuse_delay (Results 0) = 300 \<and> abuse_delay (Results (Suc n)) = 30
   \<and> vt_delay VtError r = 60 \<and> vt_delay VtEmpty r = 300
   \<and> 30 \<le> vt_delay VtSuccess r \<and> vt_delay VtSuccess r \<le> 40
   \<and> (running s \<and> list_all (\<lambda>e. work e = Fails \<and> \<not> stop_requested e) es
        \<longrightarrow> sleeps (snd (collect_loop s es)) = replicate (length es) 60)"
  using randint_bounds[of r] failing_run[of s es]
  by (simp add: sleeps_cycle vt_sleeps_cycle abuse_delay_def vt_delay_def)

theorem delay_from_outcome_only_witness:
  "running (init_collector\<lparr>running := True\<rparr>)
   \<and> list_all (\<lambda>e. work e = Fails \<and> \<not> stop_requested e) [fail_env, fail_env]
   \<and> sleeps (snd (collect_loop (init_collector\<lparr>running := True\<rparr>) [fail_env, fail_env]))
       = [60, 60]
   \<and> sleeps (snd (cycle init_collector (ok_env 0))) = [300]
   \<and> vt_sleeps (snd (snd (vt_cycle init_vt db2 (vt_ok_env 5)))) = [35]"
proof -
  have o: "cycle_outcome init_collector (ok_env 0) = Results 0"
    by (simp add: cycle_outcome_def init_collector_def ok_env_def needs_setup_def
        scrape_ips_outcome_def)
  have vo: "vt_cycle_outcome init_vt db2 (vt_ok_env 5) = VtSuccess"
    by (simp add: vt_cycle_outcome_def vt_work_outcome_def init_vt_def vt_ok_env_def
        first_vt_candidate stop_at_def vt_scrape_outcome_def)
  have r: "random_source (vt_ok_env 5) = 5" by (simp add: vt_ok_env_def)
  have l: "list_all (\<lambda>e. work e = Fails \<and> \<not> stop_requested e) [fail_env, fail_env]"
    by (simp add: fail_env_def)
  from delay_from_outcome_only
         [of "init_collector\<lparr>running := True\<rparr>" "ok_env 0" init_vt db2 "vt_ok_env 5" 0 5
             "[fail_env, fail_env]"]
       delay_from_outcome_only
         [of init_collector "ok_env 0" init_vt db2 "vt_ok_env 5" 0 5 "[]"]
       o vo r l
  show ?thesis by (simp add: vt_delay_def randint_def abuse_delay_def)
qed

subsection \<open>Stopping the AbuseIPDB worker\<close>

lemma loop_stopped: "\<not> running s \<Longrightarrow> collect_loop s es = (s, [])"
  by (cases es) auto

text \<open>
  Claim C6 asks that \<open>stop\<close> releases the driver and the connection before the worker is
  stopped. \<open>stop_collection\<close> of the AbuseIPDB collector only clears the flag: the loop
  then ends without another pass, and the driver, the connection and the cursor are what
  they were, live if they were live. \<open>stop_collection\<close> of the VirusTotal collector does
  quit and forget its driver.
\<close>

theorem stop_collection_keeps_lease:
  "\<not> running (stop_collection s)
   \<and> driver (stop_collection s) = driver s
   \<and> conn (stop_collection s) = conn s
   \<and> cur (stop_collection s) = cur s
   \<and> collect_loop (stop_collection s) es = (stop_collection s, [])
   \<and> vt_driver (vt_stop_collection v) = None"
proof -
  have "\<not> running (stop_collection s)" by (simp add: stop_collection_def)
  then have "collect_loop (stop_collection s) es = (stop_collection s, [])"
    by (rule loop_stopped)
  then show ?thesis by (simp add: stop_collection_def vt_stop_collection_def)
qed

theorem stop_collection_keeps_lease_witness:
  "collect_continuous init_collector [ok_env 2, stop_env, ok_env 1]
     = (\<lparr>running = False, driver = Some Live, conn = Some Live, cur = Some Live\<rparr>,
        [Work (Some Live) (Some Live), Sleep 30, Work (Some Live) (Some Live), Sleep 30])"
proof -
  let ?s = "init_collector\<lparr>running := True\<rparr>"
  have c1: "cycle ?s (ok_env 2) = (?s, [Work (Some Live) (Some Live), Sleep 30])"
    by (simp add: init_collector_def ok_env_def cycle_def cycle_body_def needs_setup_def
        run_work_def scrape_ips_outcome_def)
  have c2: "cycle ?s stop_env = (stop_collection ?s, [Work (Some Live) (Some Live), Sleep 30])"
    by (simp add: init_collector_def stop_env_def cycle_def cycle_body_def needs_setup_def
        run_work_def scrape_ips_outcome_def)
  have r: "running ?s" by simp
  have f: "stop_collection ?s
      = \<lparr>running = False, driver = Some Live, conn = Some Live, cur = Some Live\<rparr>"
    by (simp add: stop_collection_def init_collector_def)
  from stop_collection_keeps_lease [of ?s "[ok_env 1]"]
  have "collect_loop (stop_collection ?s) [ok_env 1] = (stop_collection ?s, [])" by simp
  with c1 c2 r f show ?thesis
    by (simp add: collect_continuous_def)
qed

subsection \<open>After the first error the handles stay closed\<close>

lemma cycle_quit:
  assumes "driver s = Some Quit" "conn s = Some Quit"
  shows "driver (fst (cycle s e)) = Some Quit \<and> conn (fst (cycle s e)) = Some Quit
       \<and> snd (cycle s e) = [Work (Some Quit) (Some Quit), Close, Sleep 60]"
  using assms
  by (simp add: cycle_def cycle_body_def needs_setup_def run_work_def scrape_ips_outcome_def
        close_def stop_collection_def)

lemma loop_quit:
  assumes "driver s = Some Quit" "conn s = Some Quit"
  shows "set (snd (collect_loop s es)) \<subseteq> {Work (Some Quit) (Some Quit), Close, Sleep 60}"
  using assms
proof (induction es arbitrary: s)
  case Nil
  then show ?case by simp
next
  case (Cons e es)
  from cycle_quit[OF Cons.prems, of e] Cons.IH[of "fst (cycle s e)"]
  show ?case by (auto simp: case_prod_beta)
qed

lemma first_error:
  assumes "driver s = Some Live" "conn s = Some Live" "work e = Fails"
  shows "driver (fst (cycle s e)) = Some Quit \<and> conn (fst (cycle s e)) = Some Quit"
  using assms
  by (simp add: cycle_def cycle_body_def needs_setup_def run_work_def scrape_ips_outcome_def
        close_def stop_collection_def)

text \<open>
  Claim C7 asks that the loop sets the driver and the database up again after an error
  has closed them. In the code the guard looks for missing attributes, and \<open>close\<close>
  leaves the attributes in place: after a pass that fails on live handles both handles
  are closed, the guard does not ask for a setup, and every later pass, whatever the
  environment offers, works on the closed handles, fails, and waits 60 seconds; no setup
  is in the trace.
\<close>

theorem closed_handles_not_reacquired:
  assumes "driver s = Some Live" "conn s = Some Live" "work e = Fails"
  shows "driver (fst (cycle s e)) = Some Quit \<and> conn (fst (cycle s e)) = Some Quit
       \<and> \<not> needs_setup (fst (cycle s e))
       \<and> set (snd (collect_loop (fst (cycle s e)) es))
           \<subseteq> {Work (Some Quit) (Some Quit), Close, Sleep 60}"
proof -
  from first_error[OF assms]
  have q: "driver (fst (cycle s e)) = Some Quit" "conn (fst (cycle s e)) = Some Quit"
    by simp_all
  from loop_quit[OF q] q show ?thesis by (simp add: needs_setup_def)
qed

theorem closed_handles_not_reacquired_witness:
  "driver init_collector = Some Live \<and> conn init_collector = Some Live
   \<and> work fail_env = Fails
   \<and> snd (collect_continuous init_collector [fail_env, ok_env 3, ok_env 0])
     = [Work (Some Live) (Some Live), Close, Sleep 60,
        Work (Some Quit) (Some Quit), Close, Sleep 60,
        Work (Some Quit) (Some Quit), Close, Sleep 60]
   \<and> Setup \<notin> set (snd (collect_loop
         (fst (cycle (init_collector\<lparr>running := True\<rparr>) fail_env)) [ok_env 3, ok_env 0]))"
proof -
  have a: "driver (init_collector\<lparr>running := True\<rparr>) = Some Live"
    "conn (init_collector\<lparr>running := True\<rparr>) = Some Live" "work fail_env = Fails"
    by (simp_all add: init_collector_def fail_env_def)
  have t: "snd (collect_continuous init_collector [fail_env, ok_env 3, ok_env 0])
     = [Work (Some Live) (Some Live), Close, Sleep 60,
        Work (Some Quit) (Some Quit), Close, Sleep 60,
        Work (Some Quit) (Some Quit), Close, Sleep 60]"
    by (simp add: collect_continuous_def init_collector_def fail_env_def ok_env_def cycle_def
      cycle_body_def needs_setup_def run_work_def scrape_ips_outcome_def close_def)
  from closed_handles_not_reacquired[OF a, of "[ok_env 3, ok_env 0]"]
  have "Setup \<notin> set (snd (collect_loop
         (fst (cycle (init_collector\<lparr>running := True\<rparr>) fail_env)) [ok_env 3, ok_env 0]))"
    by auto
  with a t show ?thesis by (simp add: init_collector_def)
qed

subsection \<open>A faulting job does not stop the others\<close>

lemmas wrapper_defs = job_func_def run_phishing_collector_def run_opencti_collector_def
  run_et_collector_def run_phishing_data_collector_def run_abuseipdb_sitemap_collector_def
  try_except_def seq_def logger_info_def logger_error_def call_def

lemma job_func_returns: "snd (job_func j h l) = Inr ()"
  by (cases j; cases h) (simp_all add: wrapper_defs)

lemma job_func_errors:
  "errors (fst (job_func j h l)) = errors l + (if h = Returns then 0 else 1)"
  by (cases j; cases h) (simp_all add: wrapper_defs errors_def is_error_def)

lemma job_func_Inr: "job_func j h l = (fst (job_func j h l), Inr ())"
  using job_func_returns[of j h l] by (cases "job_func j h l") simp

lemma run_due_Cons:
  "run_due h now (j # js) s =
     run_due h now js
       (s\<lparr>log := fst (job_func (job_name j) (h (job_name j) now) (log s)),
          runs := runs s @ [(now, job_name j)],
          jobs := reschedule (job_name j) now (jobs s)\<rparr>)"
  using job_func_Inr[of "job_name j" "h (job_name j) now" "log s"]
  by (cases "job_func (job_name j) (h (job_name j) now) (log s)") simp

lemma run_due_props:
  "jobs (fst (run_due h now js s)) = foldl (\<lambda>q j. reschedule (job_name j) now q) (jobs s) js
   \<and> runs (fst (run_due h now js s)) = runs s @ map (\<lambda>j. (now, job_name j)) js
   \<and> snd (run_due h now js s) = Inr ()
   \<and> ticks (fst (run_due h now js s)) = ticks s
   \<and> errors (log (fst (run_due h now js s)))
       = errors (log s) + length (filter (\<lambda>j. h (job_name j) now \<noteq> Returns) js)"
proof (induction js arbitrary: s)
  case Nil
  show ?case by simp
next
  case (Cons j js)
  show ?case
    unfolding run_due_Cons
    using Cons.IH[of "s\<lparr>log := fst (job_func (job_name j) (h (job_name j) now) (log s)),
          runs := runs s @ [(now, job_name j)],
          jobs := reschedule (job_name j) now (jobs s)\<rparr>"]
    by (simp add: job_func_errors)
qed

lemma run_pending_props:
  "jobs (fst (run_pending h now s))
     = foldl (\<lambda>q j. reschedule (job_name j) now q) (jobs s) (due_jobs now s)
   \<and> runs (fst (run_pending h now s)) = runs s @ map (\<lambda>j. (now, job_name j)) (due_jobs now s)
   \<and> snd (run_pending h now s) = Inr ()
   \<and> ticks (fst (run_pending h now s)) = ticks s
   \<and> errors (log (fst (run_pending h now s)))
       = errors (log s) + length (filter (\<lambda>j. h (job_name j) now \<noteq> Returns) (due_jobs now s))"
  unfolding run_pending_def using run_due_props[of h now "due_jobs now s" s] by simp

lemma run_schedule_Cons:
  "run_schedule h s (now # clock) =
     run_schedule h ((fst (run_pending h now s))\<lparr>ticks := ticks s + 1\<rparr>) clock"
  using run_pending_props[of h now s]
  by (cases "run_pending h now s") (auto split: sum.splits)

lemma run_schedule_props:
  "runs (run_schedule h s clock) = runs s @ expected_runs (jobs s) clock
   \<and> errors (log (run_schedule h s clock))
       = errors (log s)
         + length (filter (\<lambda>r. h (snd r) (fst r) \<noteq> Returns) (expected_runs (jobs s) clock))
   \<and> ticks (run_schedule h s clock) = ticks s + length clock"
proof (induction clock arbitrary: s)
  case Nil
  show ?case by simp
next
  case (Cons now clock)
  let ?t = "(fst (run_pending h now s))\<lparr>ticks := ticks s + 1\<rparr>"
  let ?p = "fst (run_pending h now s)"
  have j: "jobs ?p = foldl (\<lambda>q j. reschedule (job_name j) now q) (jobs s) (due_list now (jobs s))"
    and r: "runs ?p = runs s @ map (\<lambda>j. (now, job_name j)) (due_list now (jobs s))"
    and e: "errors (log ?p) = errors (log s)
        + length (filter (\<lambda>j. h (job_name j) now \<noteq> Returns) (due_list now (jobs s)))"
    using run_pending_props[of h now s] by (simp_all add: due_jobs_def)
  have f: "length (filter (\<lambda>r. h (snd r) (fst r) \<noteq> Returns)
              (map (\<lambda>j. (now, job_name j)) (due_list now (jobs s))))
         = length (filter (\<lambda>j. h (job_name j) now \<noteq> Returns) (due_list now (jobs s)))"
    by (simp add: filter_map comp_def)
  from Cons.IH[of ?t] show ?case
    unfolding run_schedule_Cons by (simp add: j r e comp_def)
qed


lemma expected_example:
  "expected_runs (jobs (start_scheduler 0)) [30, 3600]
   = [(30, PhishingJob), (3600, PhishingJob), (3600, OpenCTIJob)]"
  by (simp add: start_scheduler_def registered_def next_due_def due_list_def reschedule_def)

text \<open>
  Claim C8. A job wrapper whose collector raises returns normally and adds exactly one
  error entry to the application log. Along any sequence of ticks and whatever the
  collectors do, the scheduler runs exactly the jobs that the registered cadences call
  for, at the ticks they call for them: a fault changes neither the jobs run on the same
  tick nor those run later. The log gains one error entry for each run that raised and
  no other, and the loop makes every one of its passes.
\<close>

theorem faulting_job_isolated:
  "snd (job_func j (Raises e) l) = Inr ()
   \<and> errors (fst (job_func j (Raises e) l)) = errors l + 1
   \<and> runs (run_schedule h s clock) = runs s @ expected_runs (jobs s) clock
   \<and> errors (log (run_schedule h s clock))
       = errors (log s)
         + length (filter (\<lambda>r. h (snd r) (fst r) \<noteq> Returns) (expected_runs (jobs s) clock))
   \<and> ticks (run_schedule h s clock) = ticks s + length clock"
  using run_schedule_props[of h s clock]
  by (simp add: job_func_returns job_func_errors)

theorem faulting_job_isolated_witness:
  "runs (run_schedule faulty (start_scheduler 0) [30, 3600])
     = [(30, PhishingJob), (3600, PhishingJob), (3600, OpenCTIJob)]
   \<and> errors (log (run_schedule faulty (start_scheduler 0) [30, 3600])) = 2
   \<and> ticks (run_schedule faulty (start_scheduler 0) [30, 3600]) = 2"
proof -
  let ?S = "start_scheduler 0"
  note t = faulting_job_isolated
          [of PhishingJob "Exception ''boom''" "[]" faulty ?S "[30, 3600]"]
  have r: "runs (run_schedule faulty ?S [30, 3600]) = runs ?S @ expected_runs (jobs ?S) [30, 3600]"
    using t by blast
  have e: "errors (log (run_schedule faulty ?S [30, 3600]))
       = errors (log ?S)
         + length (filter (\<lambda>r. faulty (snd r) (fst r) \<noteq> Returns)
                     (expected_runs (jobs ?S) [30, 3600]))"
    using t by blast
  have k: "ticks (run_schedule faulty ?S [30, 3600]) = ticks ?S + length [30, 3600 :: nat]"
    using t by blast
  have i: "runs ?S = []" "errors (log ?S) = 0" "ticks ?S = 0"
    by (simp_all add: start_scheduler_def errors_def)
  show ?thesis
    unfolding r e k expected_example i by (simp add: faulty_def)
qed

subsection \<open>Writing the artifact is not atomic\<close>







lemma filter_map_unmatched:
  assumes "\<And>f. P (g f) = P f" "\<And>f. P f \<Longrightarrow> g f = f"
  shows "filter P (map g fs) = filter P fs"
  using assms by (induction fs) auto

lemma glob_write_text:
  "\<not> glob_txt_match d p \<Longrightarrow> glob_txt d (write_text fs p text t) = glob_txt d fs"
  unfolding glob_txt_def write_text_def
  by (rule filter_map_unmatched) auto

lemma glob_open_w:
  "\<not> glob_txt_match d p \<Longrightarrow> glob_txt d (open_w fs p t) = glob_txt d fs"
proof (cases "p \<in> set (map f_path fs)")
  case True
  assume n: "\<not> glob_txt_match d p"
  have "filter (\<lambda>f. glob_txt_match d (f_path f))
          (map (\<lambda>f. if f_path f = p then f\<lparr>f_ctime := t, f_content := []\<rparr> else f) fs)
        = filter (\<lambda>f. glob_txt_match d (f_path f)) fs"
    using n by (intro filter_map_unmatched) auto
  with True show ?thesis by (simp add: glob_txt_def open_w_def)
next
  case False
  assume "\<not> glob_txt_match d p"
  with False show ?thesis by (simp add: glob_txt_def open_w_def)
qed

lemma glob_write_records:
  "\<not> glob_txt_match d p \<Longrightarrow>
   list_all (\<lambda>st. glob_txt d st = glob_txt d fs) (fst (write_records fs p env k rs))"
proof (induction rs arbitrary: fs k)
  case Nil
  then show ?case by simp
next
  case (Cons r rs)
  let ?fs' = "write_text fs p (line_of r) (clock_at env k)"
  from Cons.IH[OF Cons.prems, of ?fs' "Suc k"] Cons.IH[OF Cons.prems, of fs "Suc k"]
    glob_write_text[OF Cons.prems, of fs "line_of r" "clock_at env k"]
  show ?case by (simp add: case_prod_beta Let_def)
qed

lemma glob_save_to_txt:
  "\<not> glob_txt_match d p \<Longrightarrow>
   list_all (\<lambda>st. glob_txt d st = glob_txt d fs) (fst (save_to_txt fs records p env))"
  using glob_write_records[of d p "open_w fs p (clock_at env 0)" env 1 records]
    glob_open_w[of d p fs "clock_at env 0"]
  by (simp add: save_to_txt_def case_prod_beta Let_def)

lemma reader_unaffected:
  "\<not> glob_txt_match d p \<Longrightarrow>
   list_all (\<lambda>st. find_latest_phishing_file d st = find_latest_phishing_file d fs)
     (fst (save_to_txt fs records p env))"
  using glob_save_to_txt[of d p fs records env]
  by (auto simp: list_all_iff find_latest_phishing_file_def)


lemma first_split:
  "c \<notin> set u \<Longrightarrow> c \<notin> set v \<Longrightarrow> u @ c # s = v @ c # t \<Longrightarrow> u = v \<and> s = t"
proof (induction u arbitrary: v)
  case Nil
  then show ?case by (cases v) auto
next
  case (Cons a u)
  then show ?case by (cases v) auto
qed

lemma last_slash_split:
  assumes "c \<notin> set f" "c \<notin> set b" "x @ c # f = y @ c # b"
  shows "x = y"
proof -
  from assms(3) have "rev (x @ c # f) = rev (y @ c # b)" by simp
  then have "rev f @ c # rev x = rev b @ c # rev y" by simp
  moreover have "c \<notin> set (rev f)" "c \<notin> set (rev b)" using assms by simp_all
  ultimately have "rev x = rev y" by (blast dest: first_split)
  then show ?thesis by simp
qed

lemma strftime_chars:
  assumes "is_strftime_text s"
  shows "s \<noteq> []" "hd s \<noteq> CHR ''/''" "last s \<noteq> CHR ''/''" "last s \<noteq> CHR ''n''"
    "CHR ''/'' \<notin> set s"
proof -
  from assms have n: "s \<noteq> []" and a: "\<forall>c \<in> set s. c \<in> set ''0123456789-_''"
    by (simp_all add: is_strftime_text_def list_all_iff)
  show "s \<noteq> []" by (rule n)
  from n have "hd s \<in> set s" "last s \<in> set s" by simp_all
  with a have h: "hd s \<in> set ''0123456789-_''" and l: "last s \<in> set ''0123456789-_''"
    by blast+
  from h show "hd s \<noteq> CHR ''/''" by auto
  from l show "last s \<noteq> CHR ''/''" by auto
  from l show "last s \<noteq> CHR ''n''" by auto
  from a show "CHR ''/'' \<notin> set s" by auto
qed

lemma collect_file_not_listed:
  assumes "is_strftime_text today" "is_strftime_text timestamp"
  shows "\<not> glob_txt_match phishing_directory (collect_filename pdd today timestamp)"
proof
  let ?X = "py_join pdd today"
  let ?f = "timestamp @ ''_phishing_cti.txt''"
  note t = strftime_chars[OF assms(1)] and u = strftime_chars[OF assms(2)]
  have "?X = pdd @ today \<or> ?X = pdd @ ''/'' @ today"
    using t by (simp add: py_join_def)
  then have X: "?X \<noteq> []" "last ?X = last today"
    using t(1) by auto
  have f: "?f \<noteq> []" "hd ?f \<noteq> CHR ''/''" "CHR ''/'' \<notin> set ?f"
    using u by simp_all
  have p: "collect_filename pdd today timestamp = ?X @ CHR ''/'' # ?f"
    using X t(3) f(2) by (simp add: collect_filename_def py_join_def[of ?X])
  have d: "py_join phishing_directory [] = ''./phishing_domain'' @ [CHR ''/'']"
    by (simp add: py_join_def phishing_directory_def)
  assume "glob_txt_match phishing_directory (collect_filename pdd today timestamp)"
  then have m: "take (length (''./phishing_domain'' @ [CHR ''/'']))
                  (collect_filename pdd today timestamp) = ''./phishing_domain'' @ [CHR ''/'']"
    and b: "CHR ''/'' \<notin> set (drop (length (''./phishing_domain'' @ [CHR ''/'']))
                  (collect_filename pdd today timestamp))"
    unfolding glob_txt_match_def d by (simp_all add: Let_def)
  let ?b = "drop (length (''./phishing_domain'' @ [CHR ''/''])) (collect_filename pdd today timestamp)"
  have "collect_filename pdd today timestamp = (''./phishing_domain'' @ [CHR ''/'']) @ ?b"
    using m by (metis append_take_drop_id)
  then have "?X @ CHR ''/'' # ?f = ''./phishing_domain'' @ CHR ''/'' # ?b"
    using p by simp
  from last_slash_split[OF f(3) b this] have "?X = ''./phishing_domain''" .
  then have "last ?X = CHR ''n''" by simp
  with X(2) t(4) show False by simp
qed

lemma collect_not_listed:
  assumes "is_strftime_text today" "is_strftime_text timestamp"
  shows "list_all (\<lambda>st. find_latest_phishing_file phishing_directory st
                        = find_latest_phishing_file phishing_directory fs)
           (fst (collect fs records pdd today timestamp makedirs_raises env))"
  using reader_unaffected[where fs = fs and records = records and env = env,
          OF collect_file_not_listed[OF assms, of pdd]]
  by (simp add: collect_def)




end
